theory Spec2Isabelle
  imports Complex_Main "HOL-Library.Word" "HOL-Library.Sublist"
begin

unbundle bit_operations_syntax

section \<open>Common data\<close>

text \<open>
  Undefined behaviour of the C++ source that a caller can reach (a read outside a
  buffer, \<open>back()\<close> of an empty shape, a null handle) and the exception of \<open>main\<close> are
  values of \<open>fault\<close>; a function that can reach one returns \<open>fault + 'a\<close>.
\<close>

datatype fault = OutOfBounds | EmptyShape | NullPointer | RuntimeError string

text \<open>
  \<open>ov::Tensor\<close>: a shape and a flat buffer. Element types \<open>i64\<close> and \<open>i32\<close> are \<open>int\<close>
  (token ids, masks, positions: no arithmetic that could overflow is done on them),
  \<open>f32\<close> is \<open>real\<close> (finite values; NaN and rounding are not modelled).
\<close>

record 'a tensor =
  shape :: "nat list"
  data :: "'a list"

definition BATCH_SIZE :: nat where
  "BATCH_SIZE = 1"

section \<open>The speculative decoding sample\<close>

subsection \<open>convert_to_vector and append_element\<close>

text \<open>
  \<^verbatim>\<open>for (int i = 0; i << tensor.get_shape().back(); i++)\<close>: the condition is the
  left shift of the 32-bit \<open>int i\<close> by the last dimension, read as a truth value.
  \<open>get_shape().back()\<close> of a tensor of rank 0 reads the last element of an empty vector:
  that is the fault \<open>EmptyShape\<close>. \<open>push_bit\<close> on \<open>32 word\<close> is the shift (for a count
  of 32 or more C++ leaves the value open; the condition is first evaluated with
  \<open>i = 0\<close>, and zero shifted by any count is zero on every target, as it is here). A read
  of the buffer past its end is a fault.
\<close>

function convert_loop :: "int tensor \<Rightarrow> nat \<Rightarrow> int list \<Rightarrow> fault + int list" where
  "convert_loop t i res_vector =
     (if shape t = [] then Inl EmptyShape
      else if push_bit (last (shape t)) (of_nat i :: 32 word) \<noteq> 0
      then (if i < length (data t)
            then convert_loop t (Suc i) (res_vector @ [data t ! i])
            else Inl OutOfBounds)
      else Inr res_vector)"
  by pat_completeness auto
termination
  by (relation "measure (\<lambda>(t, i, r). length (data t) - i)") auto

declare convert_loop.simps [simp del]

definition convert_to_vector :: "int tensor \<Rightarrow> fault + int list" where
  "convert_to_vector t = convert_loop t 0 []"

text \<open>
  The tensor \<open>append_element\<close> returns is built over \<open>vec.data()\<close>, the buffer of the
  local vector, which is destroyed when the function returns: the returned tensor has a
  shape and a pointer to freed memory. \<open>wrapped_buffer\<close> is the content of the buffer
  the tensor wraps, \<open>None\<close> once the buffer is gone. The result of \<open>append_element\<close> is
  the vector the tensor was built over, as it was at that moment, and the tensor as the
  caller receives it. The shape is written from the argument's last dimension, again by
  \<open>get_shape().back()\<close>.
\<close>

record host_tensor =
  host_shape :: "nat list"
  wrapped_buffer :: "int list option"

definition append_element :: "int tensor \<Rightarrow> int \<Rightarrow> fault + (int list \<times> host_tensor)" where
  "append_element tensor_val element =
     (case convert_to_vector tensor_val of
        Inl e \<Rightarrow> Inl e
      | Inr vec0 \<Rightarrow>
          let vec = vec0 @ [element] in
          if shape tensor_val = [] then Inl EmptyShape
          else Inr (vec, \<lparr>host_shape = [BATCH_SIZE, last (shape tensor_val)],
                         wrapped_buffer = None\<rparr>))"

subsection \<open>TextStreamer\<close>

text \<open>
  The detokenizer is an external model; the streamer holds it as a field and calls it
  on the whole cache. Strings are byte strings, as \<open>std::string\<close>; \<open>print_len\<close> is a
  \<open>size_t\<close>. What is written to \<open>std::cout\<close> is returned as a chunk.
  \<^verbatim>\<open>std::string_view{text.data() + print_len, text.size() - print_len}\<close> lies inside
  \<open>text\<close> only when \<open>print_len \<le> text.size()\<close>; otherwise the length wraps around and
  the read leaves the buffer.
\<close>

record TextStreamer =
  detokenizer :: "int list \<Rightarrow> string"
  token_cache :: "int list"
  print_len :: nat

text \<open>\<^verbatim>\<open>TextStreamer text_streamer{std::move(detokenizer)}\<close>: no token cached, nothing printed.\<close>

definition initial_streamer :: "(int list \<Rightarrow> string) \<Rightarrow> TextStreamer" where
  "initial_streamer d = \<lparr>detokenizer = d, token_cache = [], print_len = 0\<rparr>"

definition detokenize :: "(int list \<Rightarrow> string) \<Rightarrow> int list \<Rightarrow> string" where
  "detokenize d tokens = d tokens"

definition newline :: char where
  "newline = CHR 0x0A"

text \<open>The three bytes of U+FFFD in UTF-8, the literal the source compares with.\<close>

definition replacement :: string where
  "replacement = [CHR 0xEF, CHR 0xBF, CHR 0xBD]"

definition string_view_from :: "string \<Rightarrow> nat \<Rightarrow> fault + string" where
  "string_view_from text n =
     (if n \<le> length text then Inr (drop n text) else Inl OutOfBounds)"

definition put :: "TextStreamer \<Rightarrow> int \<Rightarrow> fault + (string \<times> TextStreamer)" where
  "put s token =
     (let cache = token_cache s @ [token];
          text = detokenize (detokenizer s) cache
      in if text \<noteq> [] \<and> last text = newline then
           (case string_view_from text (print_len s) of
              Inl e \<Rightarrow> Inl e
            | Inr chunk \<Rightarrow> Inr (chunk, s\<lparr>token_cache := [], print_len := 0\<rparr>))
         else if 3 \<le> length text \<and> drop (length text - 3) text = replacement then
           Inr ([], s\<lparr>token_cache := cache\<rparr>)
         else
           (case string_view_from text (print_len s) of
              Inl e \<Rightarrow> Inl e
            | Inr chunk \<Rightarrow>
                Inr (chunk, s\<lparr>token_cache := cache, print_len := length text\<rparr>)))"

definition end_stream :: "TextStreamer \<Rightarrow> fault + (string \<times> TextStreamer)" where
  "end_stream s =
     (let text = detokenize (detokenizer s) (token_cache s)
      in case string_view_from text (print_len s) of
           Inl e \<Rightarrow> Inl e
         | Inr chunk \<Rightarrow> Inr (chunk @ [newline], s\<lparr>token_cache := [], print_len := 0\<rparr>))"

subsection \<open>Inference requests\<close>

text \<open>
  An \<open>ov::InferRequest\<close> of the sample: its named tensors, the per-layer key and value
  tensors by layer index, and the compiled network it runs. The network is external: it
  maps the input tensors to the logits and the present keys and values.
\<close>

type_synonym network =
  "int tensor \<Rightarrow> int tensor \<Rightarrow> int tensor \<Rightarrow> (nat \<Rightarrow> real tensor) \<Rightarrow> (nat \<Rightarrow> real tensor)
     \<Rightarrow> real tensor \<times> (nat \<Rightarrow> real tensor) \<times> (nat \<Rightarrow> real tensor)"

record InferRequest =
  compiled_model :: network
  t_input_ids :: "int tensor"
  t_attention_mask :: "int tensor"
  t_position_ids :: "int tensor"
  past_key :: "nat \<Rightarrow> real tensor"
  past_value :: "nat \<Rightarrow> real tensor"
  present_key :: "nat \<Rightarrow> real tensor"
  present_value :: "nat \<Rightarrow> real tensor"
  t_logits :: "real tensor"

definition get_size :: "'a tensor \<Rightarrow> nat" where
  "get_size t = prod_list (shape t)"

text \<open>
  \<open>set_shape\<close> keeps the buffer's leading elements; elements a larger shape adds are
  written by the caller before they are read (they are 0 here).
\<close>

definition set_shape :: "int tensor \<Rightarrow> nat list \<Rightarrow> int tensor" where
  "set_shape t sh =
     \<lparr>shape = sh,
      data = take (prod_list sh) (data t @ replicate (prod_list sh - length (data t)) 0)\<rparr>"

definition fill_n :: "int tensor \<Rightarrow> nat \<Rightarrow> int \<Rightarrow> int tensor" where
  "fill_n t n v = t\<lparr>data := replicate n v @ drop n (data t)\<rparr>"

definition iota :: "int tensor \<Rightarrow> int tensor" where
  "iota t = t\<lparr>data := map int [0 ..< get_size t]\<rparr>"

definition set_first :: "int tensor \<Rightarrow> int \<Rightarrow> int tensor" where
  "set_first t v = t\<lparr>data := (data t)[0 := v]\<rparr>"

definition infer :: "InferRequest \<Rightarrow> InferRequest" where
  "infer r =
     (case compiled_model r (t_input_ids r) (t_attention_mask r) (t_position_ids r)
             (past_key r) (past_value r) of
        (lg, pk, pv) \<Rightarrow> r\<lparr>present_key := pk, present_value := pv, t_logits := lg\<rparr>)"

definition set_key_values :: "InferRequest \<Rightarrow> nat \<Rightarrow> InferRequest" where
  "set_key_values request n =
     request\<lparr>past_key := (\<lambda>i. if i < n then present_key request i else past_key request i),
             past_value := (\<lambda>i. if i < n then present_value request i else past_value request i)\<rparr>"

definition init_key_values :: "InferRequest \<Rightarrow> nat \<Rightarrow> nat \<Rightarrow> nat \<Rightarrow> InferRequest" where
  "init_key_values request kv_length size_1 size_2 =
     request\<lparr>past_key := (\<lambda>i. if i < kv_length
                               then \<lparr>shape = [BATCH_SIZE, size_1, 0, size_2], data = []\<rparr>
                               else past_key request i),
             past_value := (\<lambda>i. if i < kv_length
                               then \<lparr>shape = [BATCH_SIZE, size_1, 0, size_2], data = []\<rparr>
                               else past_value request i)\<rparr>"

subsection \<open>Greedy choice\<close>

text \<open>
  \<open>std::max_element(first, last) - first\<close>: the index of the first greatest element,
  \<open>0\<close> for an empty range (the end iterator). \<open>max_from\<close> is the scan: the best index
  and value so far, replaced only by a strictly greater element.
\<close>

fun max_from :: "nat \<Rightarrow> real \<Rightarrow> nat \<Rightarrow> real list \<Rightarrow> nat" where
  "max_from best bv i [] = best"
| "max_from best bv i (x # xs) =
     (if bv < x then max_from i x (Suc i) xs else max_from best bv (Suc i) xs)"

definition max_element :: "real list \<Rightarrow> nat" where
  "max_element xs = (case xs of [] \<Rightarrow> 0 | x # rest \<Rightarrow> max_from 0 x 1 rest)"

text \<open>Reading \<open>n\<close> floats of a buffer from an offset.\<close>

definition read_floats :: "real tensor \<Rightarrow> nat \<Rightarrow> nat \<Rightarrow> fault + real list" where
  "read_floats t off n =
     (if off + n \<le> length (data t) then Inr (take n (drop off (data t))) else Inl OutOfBounds)"

subsection \<open>The generation loop of main\<close>

definition SPECIAL_EOS_TOKEN :: int where
  "SPECIAL_EOS_TOKEN = 2"

definition tiny_llama_kv_size :: nat where "tiny_llama_kv_size = 22"
definition tiny_llama_size_1 :: nat where "tiny_llama_size_1 = 4"
definition tiny_llama_size_2 :: nat where "tiny_llama_size_2 = 64"
definition llama_kv_size :: nat where "llama_kv_size = 22"
definition llama_size_1 :: nat where "llama_size_1 = 4"
definition llama_size_2 :: nat where "llama_size_2 = 64"

record gen_state =
  lm :: InferRequest
  lm_target :: InferRequest
  out_token :: int
  target_out_token :: int
  text_streamer :: TextStreamer
  iter :: int
  cout :: string

text \<open>
  One decode step of a request, as the loop body writes it out for \<open>lm\<close> and again for
  \<open>lm_target\<close>: the token goes to \<open>input_ids[0]\<close>, the attention mask grows by one and
  is filled with ones, \<open>position_ids[0]\<close> is the mask size minus 2, the present keys and
  values become the past ones, and the network runs. \<open>get_shape().at(1)\<close> throws on a
  mask of rank below 2.
\<close>

definition decode_step :: "InferRequest \<Rightarrow> int \<Rightarrow> nat \<Rightarrow> fault + InferRequest" where
  "decode_step r token kv_size =
     (if length (shape (t_attention_mask r)) < 2 then Inl (RuntimeError ''at'')
      else
        let r1 = r\<lparr>t_input_ids := set_first (t_input_ids r) token\<rparr>;
            m = set_shape (t_attention_mask r1) [BATCH_SIZE, shape (t_attention_mask r1) ! 1 + 1];
            m1 = fill_n m (get_size m) 1;
            r2 = r1\<lparr>t_attention_mask := m1\<rparr>;
            r3 = r2\<lparr>t_position_ids := set_first (t_position_ids r2) (int (get_size m1) - 2)\<rparr>
        in Inr (infer (set_key_values r3 kv_size)))"

definition loop_body :: "nat \<Rightarrow> gen_state \<Rightarrow> fault + gen_state" where
  "loop_body vocab_size st =
     (case decode_step (lm st) (out_token st) tiny_llama_kv_size of
        Inl e \<Rightarrow> Inl e
      | Inr d \<Rightarrow>
     (case decode_step (lm_target st) (target_out_token st) llama_kv_size of
        Inl e \<Rightarrow> Inl e
      | Inr t \<Rightarrow>
     (case put (text_streamer st) (out_token st) of
        Inl e \<Rightarrow> Inl e
      | Inr (chunk, ts) \<Rightarrow>
     (case read_floats (t_logits d) 0 vocab_size of
        Inl e \<Rightarrow> Inl e
      | Inr lg \<Rightarrow>
          Inr (st\<lparr>lm := d, lm_target := t, out_token := int (max_element lg),
                  text_streamer := ts, iter := iter st + 1, cout := cout st @ chunk\<rparr>)))))"

function generation_loop :: "nat \<Rightarrow> int \<Rightarrow> gen_state \<Rightarrow> fault + gen_state" where
  "generation_loop vocab_size max_iter st =
     (if out_token st \<noteq> SPECIAL_EOS_TOKEN \<and> iter st < max_iter
      then (case loop_body vocab_size st of
              Inl e \<Rightarrow> Inl e
            | Inr st' \<Rightarrow> generation_loop vocab_size max_iter st')
      else Inr st)"
  by pat_completeness auto
termination
  by (relation "measure (\<lambda>(v, m, st). nat (m - iter st))")
     (auto simp: loop_body_def split: sum.splits prod.splits)

declare generation_loop.simps [simp del]

text \<open>
  The models \<open>main\<close> compiles and the prompt's tokenization are its environment: the
  tokenizer, the detokenizer, the draft network and the target network.
\<close>

record environment =
  tokenizer :: "string \<Rightarrow> int tensor \<times> int tensor"
  detokenizer_model :: "int list \<Rightarrow> string"
  draft_network :: network
  target_network :: network

definition empty_request :: "network \<Rightarrow> InferRequest" where
  "empty_request net =
     \<lparr>compiled_model = net,
      t_input_ids = \<lparr>shape = [], data = []\<rparr>,
      t_attention_mask = \<lparr>shape = [], data = []\<rparr>,
      t_position_ids = \<lparr>shape = [], data = []\<rparr>,
      past_key = (\<lambda>i. \<lparr>shape = [], data = []\<rparr>),
      past_value = (\<lambda>i. \<lparr>shape = [], data = []\<rparr>),
      present_key = (\<lambda>i. \<lparr>shape = [], data = []\<rparr>),
      present_value = (\<lambda>i. \<lparr>shape = [], data = []\<rparr>),
      t_logits = \<lparr>shape = [], data = []\<rparr>\<rparr>"

text \<open>
  The prefill of \<open>main\<close> up to the loop. The tensor \<open>input_ids\<close> of the tokenizer is the
  tensor \<open>lm\<close> holds (\<open>set_tensor\<close> shares it), so after \<open>lm\<close>'s \<open>input_ids\<close> is reshaped
  to one element the target's logits are read at \<open>(input_ids.get_size() - 1) * vocab_size\<close>
  with the new size. A size of 0 makes that offset wrap around, outside the buffer.
\<close>

definition draft_request :: "environment \<Rightarrow> int tensor \<Rightarrow> int tensor \<Rightarrow> InferRequest" where
  "draft_request env input_ids attention_mask =
     (let l0 = (empty_request (draft_network env))
                 \<lparr>t_input_ids := input_ids, t_attention_mask := attention_mask\<rparr>;
          l1 = l0\<lparr>t_position_ids := iota (set_shape (t_position_ids l0) (shape input_ids))\<rparr>
      in infer (init_key_values l1 tiny_llama_kv_size tiny_llama_size_1 tiny_llama_size_2))"

definition target_request :: "environment \<Rightarrow> int tensor \<Rightarrow> InferRequest" where
  "target_request env input_ids =
     (let input_ids_target = take (get_size input_ids) (data input_ids);
          g0 = (empty_request (target_network env))
                 \<lparr>t_input_ids := \<lparr>shape = shape input_ids, data = input_ids_target\<rparr>\<rparr>;
          am = set_shape (t_attention_mask g0) (shape input_ids);
          g1 = g0\<lparr>t_attention_mask := fill_n am (get_size am) 1\<rparr>;
          g2 = g1\<lparr>t_position_ids := iota (set_shape (t_position_ids g1) (shape input_ids))\<rparr>
      in infer (init_key_values g2 llama_kv_size llama_size_1 llama_size_2))"

text \<open>The two \<open>set_shape({BATCH_SIZE, 1})\<close> calls on a request after its prefill.\<close>

definition single_token_shape :: "InferRequest \<Rightarrow> InferRequest" where
  "single_token_shape r =
     (let r1 = r\<lparr>t_input_ids := set_shape (t_input_ids r) [BATCH_SIZE, 1]\<rparr>
      in r1\<lparr>t_position_ids := set_shape (t_position_ids r1) [BATCH_SIZE, 1]\<rparr>)"

definition prefill :: "environment \<Rightarrow> string \<Rightarrow> fault + (nat \<times> gen_state)" where
  "prefill env prompt =
     (case tokenizer env prompt of (input_ids, attention_mask) \<Rightarrow>
      let l2 = draft_request env input_ids attention_mask;
          g3 = target_request env input_ids
      in if shape (t_logits l2) = [] then Inl EmptyShape
         else
           let vocab_size = last (shape (t_logits l2)) in
           if get_size input_ids = 0 then Inl OutOfBounds
           else
             (case read_floats (t_logits l2) ((get_size input_ids - 1) * vocab_size) vocab_size of
                Inl e \<Rightarrow> Inl e
              | Inr lg \<Rightarrow>
                  let l4 = single_token_shape l2
                  in if get_size (t_input_ids l4) = 0 then Inl OutOfBounds
                     else
                       (case read_floats (t_logits g3)
                               ((get_size (t_input_ids l4) - 1) * vocab_size) vocab_size of
                          Inl e \<Rightarrow> Inl e
                        | Inr lgt \<Rightarrow>
                            Inr (vocab_size,
                                 \<lparr>lm = l4, lm_target = single_token_shape g3,
                                  out_token = int (max_element lg),
                                  target_out_token = int (max_element lgt),
                                  text_streamer = initial_streamer (detokenizer_model env),
                                  iter = 0, cout = []\<rparr>))))"

definition max_iter_main :: int where
  "max_iter_main = 50"

text \<open>
  \<open>main\<close>: the usage error, the prefill, the loop, the closing of the stream. The result
  is the text written to the standard output, or the error that ends the program with
  \<open>EXIT_FAILURE\<close>.
\<close>

definition main :: "string list \<Rightarrow> environment \<Rightarrow> fault + string" where
  "main argv env =
     (if length argv \<noteq> 4 then Inl (RuntimeError ''Usage'')
      else
        (case prefill env (argv ! 3) of
           Inl e \<Rightarrow> Inl e
         | Inr (vocab_size, st) \<Rightarrow>
        (case generation_loop vocab_size max_iter_main st of
           Inl e \<Rightarrow> Inl e
         | Inr st' \<Rightarrow>
        (case end_stream (text_streamer st') of
           Inl e \<Rightarrow> Inl e
         | Inr (chunk, ts) \<Rightarrow> Inr (cout st' @ chunk)))))"

section \<open>The OpenVINO backend API\<close>

subsection \<open>Sampling\<close>

text \<open>\<open>ov_params\<close>, the configuration of a call (sizes and counts are \<open>int32_t\<close>).\<close>

record params =
  model_path :: string
  tokenizer_path :: string
  n_ctx :: int
  n_predict :: int
  do_sample :: bool
  top_k :: int
  top_p :: real
  temperature :: real
  repeat_penalty :: real
  repeat_last_n :: int
  seed :: int
  model_cache_dir :: string
  device :: string
  verbose :: bool

record TokenIdScore =
  token_id :: int
  score :: real

text \<open>
  Modelled from the spec: \<open>sampling_repetition_penalty\<close> (\<open>sampling.hpp\<close> is not among
  the sources). For each of the last \<open>n\<close> tokens of the history, its logit is divided by
  the penalty if it is positive and multiplied by it otherwise. A token outside the
  vocabulary leaves the logits as they are.
\<close>

definition penalize :: "real \<Rightarrow> real \<Rightarrow> real" where
  "penalize penalty x = (if 0 < x then x / penalty else x * penalty)"

definition sampling_repetition_penalty :: "real list \<Rightarrow> int list \<Rightarrow> int \<Rightarrow> real \<Rightarrow> real list" where
  "sampling_repetition_penalty lg history_ids n penalty =
     fold (\<lambda>t l. if 0 \<le> t \<and> nat t < length l
                  then l[nat t := penalize penalty (l ! nat t)] else l)
          (drop (length history_ids - nat n) history_ids) lg"

text \<open>
  Modelled from the spec: \<open>sampling_temperature\<close> (not among the sources). All logits
  are divided by the temperature.
\<close>

definition sampling_temperature :: "real list \<Rightarrow> real \<Rightarrow> real list" where
  "sampling_temperature lg temp = map (\<lambda>x. x / temp) lg"

text \<open>
  Modelled from the spec: \<open>sampling_top_k\<close> (not among the sources). It reorders the
  pairs so that the \<open>k\<close> highest-scoring ones come first, ties in the order of the
  original index; the caller then cuts the vector to \<open>k\<close>.
\<close>

definition sampling_top_k :: "TokenIdScore list \<Rightarrow> nat \<Rightarrow> TokenIdScore list" where
  "sampling_top_k xs k = sort_key (\<lambda>t. - score t) xs"

text \<open>
  Modelled from the spec: \<open>sampling_softmax_inplace\<close> (not among the sources). Each
  score becomes its exponential over the sum of all exponentials.
\<close>

definition softmax :: "real list \<Rightarrow> real list" where
  "softmax xs = map (\<lambda>x. exp x / sum_list (map exp xs)) xs"

definition sampling_softmax_inplace :: "TokenIdScore list \<Rightarrow> TokenIdScore list" where
  "sampling_softmax_inplace xs =
     map (\<lambda>(t, q). t\<lparr>score := q\<rparr>) (zip xs (softmax (map score xs)))"

text \<open>
  Modelled from the spec: \<open>sampling_top_p\<close> (not among the sources). The pairs are sorted
  by descending score; their softmax mass is accumulated until it reaches \<open>top_p\<close>, and
  the position after the pair that crosses the threshold is returned (the end of the list
  if none does).
\<close>

fun nucleus :: "real \<Rightarrow> real \<Rightarrow> real list \<Rightarrow> nat" where
  "nucleus p acc [] = 0"
| "nucleus p acc (x # xs) = (if p \<le> acc + x then 1 else Suc (nucleus p (acc + x) xs))"

definition sampling_top_p :: "TokenIdScore list \<Rightarrow> real \<Rightarrow> TokenIdScore list \<times> nat" where
  "sampling_top_p xs p =
     (let ys = sort_key (\<lambda>t. - score t) xs
      in (ys, nucleus p 0 (softmax (map score ys))))"

text \<open>
  The random number generator is external: \<open>mt19937\<close> makes a generator from a seed,
  \<open>discrete_distribution\<close> draws an index from weights and advances the generator. The
  generator of \<open>get_out_token_id\<close> is \<open>thread_local\<close>: it is seeded by the first call
  that samples (\<open>None\<close> before) and kept afterwards.
\<close>

record 'r random_ops =
  mt19937 :: "int \<Rightarrow> 'r"
  discrete_distribution :: "real list \<Rightarrow> 'r \<Rightarrow> nat \<times> 'r"

text \<open>
  Lines 33 to 52 of \<open>get_out_token_id\<close>: the vector of pairs built from the logits, the
  block \<open>// top_k sampling\<close> and the block \<open>// top_p sampling\<close>.
\<close>

definition top_k_sampling :: "TokenIdScore list \<Rightarrow> params \<Rightarrow> TokenIdScore list" where
  "top_k_sampling token_scores p =
     (if 0 < top_k p \<and> top_k p < int (length token_scores)
      then take (nat (top_k p)) (sampling_top_k token_scores (nat (top_k p)))
      else token_scores)"

definition top_p_sampling :: "TokenIdScore list \<Rightarrow> params \<Rightarrow> TokenIdScore list" where
  "top_p_sampling token_scores p =
     (if 0 < top_p p \<and> top_p p < 1
      then (case sampling_top_p token_scores (top_p p) of (ys, pos) \<Rightarrow> take pos ys)
      else token_scores)"

definition token_scores_of :: "real list \<Rightarrow> params \<Rightarrow> TokenIdScore list" where
  "token_scores_of lg p =
     top_p_sampling
       (top_k_sampling (map (\<lambda>i. \<lparr>token_id = int i, score = lg ! i\<rparr>) [0 ..< length lg]) p) p"

text \<open>
  The block \<open>// logits pre-process\<close> of \<open>get_out_token_id\<close>, which comes before the
  test of \<open>do_sample\<close>.
\<close>

definition logits_pre_process :: "int list \<Rightarrow> real list \<Rightarrow> params \<Rightarrow> real list" where
  "logits_pre_process history_ids lg p =
     (if repeat_penalty p \<noteq> 1
      then (let penalty_tokens_used_size = min (int (length history_ids)) (repeat_last_n p)
            in if penalty_tokens_used_size \<noteq> 0
               then sampling_repetition_penalty lg history_ids penalty_tokens_used_size
                      (repeat_penalty p)
               else lg)
      else lg)"

text \<open>
  \<open>get_out_token_id\<close> reads and writes the first \<open>vocab_size\<close> floats of the caller's
  buffer. The result is the token, the buffer as the call leaves it, and the generator.
\<close>

definition get_out_token_id ::
  "'r random_ops \<Rightarrow> 'r option \<Rightarrow> int list \<Rightarrow> real list \<Rightarrow> nat \<Rightarrow> params
     \<Rightarrow> fault + (int \<times> real list \<times> 'r option)" where
  "get_out_token_id R rng history_ids buf vocab_size p =
     (if length buf < vocab_size then Inl OutOfBounds
      else
        let rest = drop vocab_size buf;
            lg1 = logits_pre_process history_ids (take vocab_size buf) p
        in if do_sample p then
             let lg2 = (if 0 < temperature p then sampling_temperature lg1 (temperature p)
                        else lg1);
                 token_scores = sampling_softmax_inplace (token_scores_of lg2 p);
                 lg3 = map score token_scores @ drop (length token_scores) lg2;
                 g = (case rng of None \<Rightarrow> mt19937 R (seed p) | Some g0 \<Rightarrow> g0)
             in (case discrete_distribution R (take (length token_scores) lg3) g of
                   (k, g1) \<Rightarrow>
                     if k < length token_scores
                     then Inr (token_id (token_scores ! k), lg3 @ rest, Some g1)
                     else Inl OutOfBounds)
           else Inr (int (max_element lg1), lg1 @ rest, rng))"

subsection \<open>The API object\<close>

record PerformanceStatistic =
  llm_load_duration :: real
  llm_unload_duration :: real
  llm_cancel_duration :: real
  tokenizer_load_duration :: real
  llm_first_infer_duration :: real
  llm_prompt_evaluation_speed :: real
  llm_generate_next_token_duration :: real
  llm_average_token_per_second :: real
  input_token_num :: int
  generated_token_num :: int

text \<open>What \<open>memset\<close> with 0 leaves in the record.\<close>

definition zero_statistic :: PerformanceStatistic where
  "zero_statistic =
     \<lparr>llm_load_duration = 0, llm_unload_duration = 0, llm_cancel_duration = 0,
      tokenizer_load_duration = 0, llm_first_infer_duration = 0,
      llm_prompt_evaluation_speed = 0, llm_generate_next_token_duration = 0,
      llm_average_token_per_second = 0, input_token_num = 0, generated_token_num = 0\<rparr>"

datatype status = init | loaded | unloaded | inference | error

text \<open>
  The model of the API is stateful: besides its tensors the request has variable states
  (the KV cache), which \<open>query_state\<close> lists and \<open>reset\<close> returns to their initial
  value. The engine is external: from the input tensors and the variable states it gives
  the logits and the new states; the time a call takes is what the clock measures,
  in milliseconds.
\<close>

record 'v engine =
  run :: "int tensor \<Rightarrow> int tensor \<Rightarrow> int tensor \<Rightarrow> int tensor \<Rightarrow> 'v list
            \<Rightarrow> real tensor \<times> 'v list \<times> real"
  reset_variable :: "'v \<Rightarrow> 'v"

record 'v StatefulRequest =
  q_engine :: "'v engine"
  q_input_ids :: "int tensor"
  q_attention_mask :: "int tensor"
  q_position_ids :: "int tensor"
  q_beam_idx :: "int tensor"
  q_logits :: "real tensor"
  q_state :: "'v list"

text \<open>
  \<open>qwen::QwenTokenizer\<close> and \<open>qwen::QwenConfig\<close> are declared outside the sources; of
  the configuration the API reads the two end-of-sequence ids.
\<close>

record QwenTokenizer =
  encode :: "string \<Rightarrow> int \<Rightarrow> int list"
  decode :: "int list \<Rightarrow> string"

record QwenConfig =
  eos_token_id :: int
  im_end_id :: int

record 'v api_interface =
  m_infer_request :: "'v StatefulRequest option"
  m_perf_statistic :: PerformanceStatistic
  m_tokenizer_config :: QwenConfig
  m_tokenizer :: "QwenTokenizer option"
  m_vocab_size :: nat
  m_api_status :: status
  m_new_token_id :: int
  m_stop_generation :: bool

text \<open>
  A \<open>size_t\<close> compared with an \<open>int32_t\<close> converts the latter to 64 unsigned bits.
\<close>

definition to_size_t :: "int \<Rightarrow> nat" where
  "to_size_t n = nat (n mod 2 ^ 64)"

definition start_async_wait :: "'v StatefulRequest \<Rightarrow> 'v StatefulRequest \<times> real" where
  "start_async_wait r =
     (case run (q_engine r) (q_input_ids r) (q_attention_mask r) (q_position_ids r)
             (q_beam_idx r) (q_state r) of
        (lg, vs, ms) \<Rightarrow> (r\<lparr>q_logits := lg, q_state := vs\<rparr>, ms))"

definition generate_first_token ::
  "'r random_ops \<Rightarrow> 'v api_interface \<Rightarrow> 'r option \<Rightarrow> int list \<Rightarrow> params
     \<Rightarrow> fault + (int \<times> 'v api_interface \<times> 'r option)" where
  "generate_first_token R a rng input_ids p =
     (case m_infer_request a of
        None \<Rightarrow> Inl NullPointer
      | Some r \<Rightarrow>
          let n = length input_ids;
              ii = set_shape (q_input_ids r) [BATCH_SIZE, n];
              am = set_shape (q_attention_mask r) [BATCH_SIZE, n];
              r1 = r\<lparr>q_input_ids := ii\<lparr>data := input_ids @ drop n (data ii)\<rparr>,
                     q_attention_mask := fill_n am n 1\<rparr>;
              r2 = r1\<lparr>q_beam_idx := set_first (set_shape (q_beam_idx r1) [BATCH_SIZE]) 0\<rparr>;
              r3 = r2\<lparr>q_position_ids := iota (set_shape (q_position_ids r2) [BATCH_SIZE, n])\<rparr>;
              r4 = r3\<lparr>q_state := map (reset_variable (q_engine r3)) (q_state r3)\<rparr>
          in (case start_async_wait r4 of (r5, first_infer_duration_ms) \<Rightarrow>
              let st = m_perf_statistic a;
                  st1 = st\<lparr>llm_first_infer_duration := first_infer_duration_ms\<rparr>;
                  st2 = st1\<lparr>llm_prompt_evaluation_speed :=
                              real_of_int (input_token_num st1) / llm_first_infer_duration st1
                                * 1000\<rparr>
              in (case get_out_token_id R rng input_ids (data (q_logits r5)) (m_vocab_size a) p of
                    Inl e \<Rightarrow> Inl e
                  | Inr (output_token, buf, rng1) \<Rightarrow>
                      Inr (output_token,
                           a\<lparr>m_infer_request := Some (r5\<lparr>q_logits := (q_logits r5)\<lparr>data := buf\<rparr>\<rparr>),
                             m_perf_statistic := st2\<rparr>,
                           rng1))))"

text \<open>
  \<open>get_shape()[1]\<close> of the attention mask reads outside the shape when its rank is
  below 2.
\<close>

definition generate_next_token ::
  "'r random_ops \<Rightarrow> 'v api_interface \<Rightarrow> 'r option \<Rightarrow> int \<Rightarrow> int list \<Rightarrow> params
     \<Rightarrow> fault + (int \<times> 'v api_interface \<times> 'r option)" where
  "generate_next_token R a rng input_token history_ids p =
     (case m_infer_request a of
        None \<Rightarrow> Inl NullPointer
      | Some r \<Rightarrow>
          if length (shape (q_attention_mask r)) < 2 then Inl OutOfBounds
          else
            let r1 = r\<lparr>q_input_ids := set_first (q_input_ids r) input_token\<rparr>;
                am = set_shape (q_attention_mask r1)
                       [BATCH_SIZE, shape (q_attention_mask r1) ! 1 + 1];
                am1 = fill_n am (get_size am) 1;
                r2 = r1\<lparr>q_attention_mask := am1\<rparr>;
                r3 = r2\<lparr>q_position_ids :=
                          set_first (q_position_ids r2) (int (get_size am1) - 2)\<rparr>
            in (case start_async_wait r3 of (r4, generate_next_token_duration_ms) \<Rightarrow>
                let st = m_perf_statistic a;
                    st1 = st\<lparr>llm_generate_next_token_duration :=
                                llm_generate_next_token_duration st
                                  + generate_next_token_duration_ms\<rparr>
                in (case get_out_token_id R rng history_ids (data (q_logits r4))
                           (m_vocab_size a) p of
                      Inl e \<Rightarrow> Inl e
                    | Inr (output_token, buf, rng1) \<Rightarrow>
                        Inr (output_token,
                             a\<lparr>m_infer_request :=
                                 Some (r4\<lparr>q_logits := (q_logits r4)\<lparr>data := buf\<rparr>\<rparr>),
                               m_perf_statistic := st1\<rparr>,
                             rng1))))"

text \<open>
  The callback receives pointers to \<open>_new_token_id\<close> and \<open>_stop_generation\<close> and may
  write both; it may keep a state of its own. The calls made to it are the observable
  effect of the streamed interface: \<open>calls\<close> lists, in order, the token id and the stop
  flag each call was given. A generation in progress is the API object, the generator,
  the callback's state, the calls so far and the local variables of \<open>api_Generate\<close>.
\<close>

type_synonym 'c callback = "'c \<Rightarrow> int \<Rightarrow> bool \<Rightarrow> 'c \<times> int \<times> bool"

record ('v, 'r, 'c) generation =
  api :: "'v api_interface"
  generator :: "'r option"
  callback_state :: 'c
  calls :: "(int \<times> bool) list"
  output_token :: int
  history_ids :: "int list"
  output_ids :: "int list"

definition api_callback :: "'c callback \<Rightarrow> ('v, 'r, 'c) generation \<Rightarrow> ('v, 'r, 'c) generation" where
  "api_callback cb g =
     (case cb (callback_state g) (m_new_token_id (api g)) (m_stop_generation (api g)) of
        (c, t, b) \<Rightarrow>
          g\<lparr>api := (api g)\<lparr>m_new_token_id := t, m_stop_generation := b\<rparr>,
            callback_state := c,
            calls := calls g @ [(m_new_token_id (api g), m_stop_generation (api g))]\<rparr>)"

text \<open>
  The loop of the streamed \<open>api_Generate\<close>. \<open>history_ids.size() - input_ids.size()\<close> is
  a difference of \<open>size_t\<close> values.
\<close>

function stream_loop ::
  "'r random_ops \<Rightarrow> 'c callback \<Rightarrow> params \<Rightarrow> int list \<Rightarrow> ('v, 'r, 'c) generation
     \<Rightarrow> fault + ('v, 'r, 'c) generation" where
  "stream_loop R cb p input_ids g =
     (if output_token g \<noteq> eos_token_id (m_tokenizer_config (api g))
         \<and> output_token g \<noteq> im_end_id (m_tokenizer_config (api g))
         \<and> to_size_t (int (length (history_ids g)) - int (length input_ids))
             < to_size_t (n_predict p)
      then
        if m_stop_generation (api g) then Inr (api_callback cb g)
        else
          (case generate_next_token R (api g) (generator g) (output_token g) (history_ids g) p of
             Inl e \<Rightarrow> Inl e
           | Inr (tok, a, rng1) \<Rightarrow>
               stream_loop R cb p input_ids
                 ((api_callback cb
                     (g\<lparr>api := a\<lparr>m_new_token_id := tok\<rparr>, generator := rng1,
                        output_token := tok\<rparr>))
                  \<lparr>history_ids := history_ids g @ [tok]\<rparr>))
      else Inr g)"
  by pat_completeness auto
termination
proof (relation "measure (\<lambda>(R, cb, p, input_ids, g).
          to_size_t (n_predict p)
            - to_size_t (int (length (history_ids g)) - int (length input_ids)))", goal_cases)
  case 1
  show ?case by simp
next
  case (2 R cb p input_ids g x tok y a rng1)
  let ?M = "2 ^ 64 :: int"
  let ?d = "int (length (history_ids g)) - int (length input_ids)"
  have n: "n_predict p mod ?M < ?M" and d: "0 \<le> ?d mod ?M"
    by simp_all
  have lt: "?d mod ?M < n_predict p mod ?M"
    using 2(1) by (simp add: to_size_t_def)
  have "(1 + ?d) mod ?M = (1 + ?d mod ?M) mod ?M"
    by (simp add: mod_add_right_eq)
  also have "\<dots> = 1 + ?d mod ?M"
    using lt n d by (intro mod_pos_pos_trivial) linarith+
  finally have "to_size_t (1 + ?d) = Suc (to_size_t ?d)"
    using d by (simp add: to_size_t_def nat_add_distrib)
  moreover have "to_size_t ?d < to_size_t (n_predict p)"
    using 2(1) by simp
  ultimately show ?case
    by (simp add: api_callback_def algebra_simps split: prod.splits)
qed

declare stream_loop.simps [simp del]

text \<open>
  The streamed \<open>api_Generate\<close>. A missing tokenizer or request is a null pointer. The
  counts of the statistics are \<open>int\<close>; a count is below \<open>2 ^ 31\<close> in every run a machine
  can hold, so the conversion is not written out.
\<close>

definition finish_statistic :: "PerformanceStatistic \<Rightarrow> int \<Rightarrow> PerformanceStatistic" where
  "finish_statistic st n =
     (let st1 = st\<lparr>generated_token_num := n\<rparr>
      in st1\<lparr>llm_average_token_per_second :=
               real_of_int (generated_token_num st1) / llm_generate_next_token_duration st1
                 * 1000\<rparr>)"

definition api_Generate_stream ::
  "'r random_ops \<Rightarrow> 'c callback \<Rightarrow> string \<Rightarrow> params \<Rightarrow> ('v, 'r, 'c) generation
     \<Rightarrow> fault + ('v, 'r, 'c) generation" where
  "api_Generate_stream R cb prompt p g0 =
     (let a0 = (api g0)\<lparr>m_api_status := inference\<rparr> in
      case m_tokenizer a0 of
        None \<Rightarrow> Inl NullPointer
      | Some tk \<Rightarrow>
          let input_ids = encode tk prompt (n_ctx p);
              a1 = a0\<lparr>m_perf_statistic :=
                        (m_perf_statistic a0)\<lparr>input_token_num := int (length input_ids)\<rparr>\<rparr>
          in (case generate_first_token R a1 (generator g0) input_ids p of
                Inl e \<Rightarrow> Inl e
              | Inr (tok, a2, rng1) \<Rightarrow>
                  let g1 = api_callback cb
                             (g0\<lparr>api := a2\<lparr>m_new_token_id := tok\<rparr>, generator := rng1,
                                 output_token := tok, history_ids := input_ids\<rparr>);
                      g2 = g1\<lparr>history_ids := input_ids @ [tok]\<rparr>
                  in (case m_infer_request (api g2) of
                        None \<Rightarrow> Inl NullPointer
                      | Some r \<Rightarrow>
                          let r1 = r\<lparr>q_input_ids := set_shape (q_input_ids r) [BATCH_SIZE, 1]\<rparr>;
                              r2 = r1\<lparr>q_position_ids :=
                                        set_shape (q_position_ids r1) [BATCH_SIZE, 1]\<rparr>;
                              g3 = g2\<lparr>api := (api g2)\<lparr>m_infer_request := Some r2\<rparr>\<rparr>
                          in (case stream_loop R cb p input_ids g3 of
                                Inl e \<Rightarrow> Inl e
                              | Inr g4 \<Rightarrow>
                                  Inr (g4\<lparr>api := (api g4)
                                         \<lparr>m_perf_statistic :=
                                            finish_statistic (m_perf_statistic (api g4))
                                              (int (length (history_ids g4))
                                                 - int (length input_ids)),
                                          m_api_status := loaded\<rparr>\<rparr>)))))"

text \<open>
  The loop of the other \<open>api_Generate\<close>, which returns the whole text. Nothing in it
  writes \<open>_stop_generation\<close>: the flag is as the call found it (a write from another
  thread is outside this model).
\<close>

function generate_loop ::
  "'r random_ops \<Rightarrow> params \<Rightarrow> ('v, 'r, 'c) generation \<Rightarrow> fault + ('v, 'r, 'c) generation" where
  "generate_loop R p g =
     (if output_token g \<noteq> eos_token_id (m_tokenizer_config (api g))
         \<and> output_token g \<noteq> im_end_id (m_tokenizer_config (api g))
         \<and> length (output_ids g) < to_size_t (n_predict p)
         \<and> \<not> m_stop_generation (api g)
      then
        (case generate_next_token R (api g) (generator g) (output_token g) (history_ids g) p of
           Inl e \<Rightarrow> Inl e
         | Inr (tok, a, rng1) \<Rightarrow>
             generate_loop R p
               (g\<lparr>api := a, generator := rng1, output_token := tok,
                  history_ids := history_ids g @ [tok],
                  output_ids := output_ids g @ [tok]\<rparr>))
      else Inr g)"
  by pat_completeness auto
termination
  by (relation "measure (\<lambda>(R, p, g). to_size_t (n_predict p) - length (output_ids g))") auto

declare generate_loop.simps [simp del]

definition api_Generate ::
  "'r random_ops \<Rightarrow> string \<Rightarrow> params \<Rightarrow> ('v, 'r, 'c) generation
     \<Rightarrow> fault + (string \<times> ('v, 'r, 'c) generation)" where
  "api_Generate R prompt p g0 =
     (let a0 = (api g0)\<lparr>m_api_status := inference\<rparr> in
      case m_tokenizer a0 of
        None \<Rightarrow> Inl NullPointer
      | Some tk \<Rightarrow>
          let input_ids = encode tk prompt (n_ctx p);
              a1 = a0\<lparr>m_perf_statistic :=
                        (m_perf_statistic a0)\<lparr>input_token_num := int (length input_ids)\<rparr>\<rparr>
          in (case generate_first_token R a1 (generator g0) input_ids p of
                Inl e \<Rightarrow> Inl e
              | Inr (tok, a2, rng1) \<Rightarrow>
                  (case m_infer_request a2 of
                     None \<Rightarrow> Inl NullPointer
                   | Some r \<Rightarrow>
                       let r1 = r\<lparr>q_input_ids := set_shape (q_input_ids r) [BATCH_SIZE, 1]\<rparr>;
                           r2 = r1\<lparr>q_position_ids :=
                                     set_shape (q_position_ids r1) [BATCH_SIZE, 1]\<rparr>;
                           g1 = g0\<lparr>api := a2\<lparr>m_infer_request := Some r2\<rparr>, generator := rng1,
                                   output_token := tok, history_ids := input_ids @ [tok],
                                   output_ids := [tok]\<rparr>
                       in (case generate_loop R p g1 of
                             Inl e \<Rightarrow> Inl e
                           | Inr g2 \<Rightarrow>
                               Inr (decode tk (output_ids g2),
                                    g2\<lparr>api := (api g2)
                                      \<lparr>m_perf_statistic :=
                                         finish_statistic (m_perf_statistic (api g2))
                                           (int (length (output_ids g2)) - 1),
                                       m_api_status := loaded\<rparr>\<rparr>)))))"

text \<open>\<open>api_Reset\<close>; the request is dereferenced, so without one the call fails.\<close>

definition api_Reset :: "'v api_interface \<Rightarrow> fault + 'v api_interface" where
  "api_Reset a =
     (case m_infer_request a of
        None \<Rightarrow> Inl NullPointer
      | Some r \<Rightarrow>
          Inr (a\<lparr>m_infer_request :=
                   Some (r\<lparr>q_state := map (reset_variable (q_engine r)) (q_state r)\<rparr>),
                 m_perf_statistic := zero_statistic,
                 m_new_token_id := im_end_id (m_tokenizer_config a),
                 m_stop_generation := False,
                 m_api_status := loaded\<rparr>))"

text \<open>\<open>api_unloadmodel\<close> releases the request; the duration is the clock's.\<close>

definition api_unloadmodel :: "real \<Rightarrow> 'v api_interface \<Rightarrow> 'v api_interface" where
  "api_unloadmodel llm_unload_duration_ms a =
     a\<lparr>m_infer_request := None,
       m_perf_statistic := (m_perf_statistic a)\<lparr>llm_unload_duration := llm_unload_duration_ms\<rparr>,
       m_api_status := unloaded\<rparr>"

section \<open>Notions of the specification\<close>

subsection \<open>The streamer\<close>

text \<open>
  The words of the specification about the decoded text, about sequences of calls and
  about the decoder. A text is \<open>printed\<close> when \<open>put\<close> prints it in full and remembers its
  length: it ends in neither a newline nor the replacement character.
  \<open>held_text_covers\<close>: a text that is held back (it ends in the replacement character)
  is never shorter than a printed text of a shorter token sequence.
  \<open>printed_text_kept\<close>: no text of a longer token sequence is. \<open>print_inv\<close> is the
  invariant of the proof: \<open>print_len\<close> is 0 or the length of a printed text of a prefix
  of the cache. \<open>stream_inv\<close> is the invariant of the proof that streaming and
  batch decoding agree: the tokens \<open>fl\<close> flushed at newlines decode to \<open>flushed\<close>
  whatever follows them, and the part of the cache's text already printed stays a
  prefix of the text of every longer cache.
\<close>

definition ends_with_newline :: "string \<Rightarrow> bool" where
  "ends_with_newline text = suffix [newline] text"

definition ends_with_replacement :: "string \<Rightarrow> bool" where
  "ends_with_replacement text = suffix replacement text"

text \<open>
  Feeding a token sequence one token at a time and closing the stream; the result is
  everything written to the output, and the final state.
\<close>

fun put_all :: "TextStreamer \<Rightarrow> int list \<Rightarrow> fault + (string \<times> TextStreamer)" where
  "put_all s [] = Inr ([], s)"
| "put_all s (t # ts) =
     (case put s t of
        Inl e \<Rightarrow> Inl e
      | Inr (chunk, s') \<Rightarrow>
          (case put_all s' ts of
             Inl e \<Rightarrow> Inl e
           | Inr (rest, s'') \<Rightarrow> Inr (chunk @ rest, s'')))"

definition stream_tokens :: "(int list \<Rightarrow> string) \<Rightarrow> int list \<Rightarrow> fault + string" where
  "stream_tokens d ts =
     (case put_all (initial_streamer d) ts of
        Inl e \<Rightarrow> Inl e
      | Inr (out, s) \<Rightarrow>
          (case end_stream s of
             Inl e \<Rightarrow> Inl e
           | Inr (chunk, s') \<Rightarrow> Inr (out @ chunk)))"

text \<open>A sequence of calls of \<open>put\<close> and \<open>end\<close>, run from a state; a fault ends it.\<close>

datatype call = Put int | End

fun run_calls :: "TextStreamer \<Rightarrow> call list \<Rightarrow> fault + TextStreamer" where
  "run_calls s [] = Inr s"
| "run_calls s (Put t # cs) =
     (case put s t of Inl e \<Rightarrow> Inl e | Inr (chunk, s') \<Rightarrow> run_calls s' cs)"
| "run_calls s (End # cs) =
     (case end_stream s of Inl e \<Rightarrow> Inl e | Inr (chunk, s') \<Rightarrow> run_calls s' cs)"

definition streamer_inv :: "TextStreamer \<Rightarrow> bool" where
  "streamer_inv s = (print_len s \<le> length (detokenizer s (token_cache s)))"

definition printed :: "string \<Rightarrow> bool" where
  "printed text = (\<not> ends_with_newline text \<and> \<not> ends_with_replacement text)"

definition held_text_covers :: "(int list \<Rightarrow> string) \<Rightarrow> bool" where
  "held_text_covers d =
     (\<forall>xs ys. printed (d xs) \<and> ends_with_replacement (d (xs @ ys))
        \<longrightarrow> length (d xs) \<le> length (d (xs @ ys)))"

definition printed_text_kept :: "(int list \<Rightarrow> string) \<Rightarrow> bool" where
  "printed_text_kept d =
     (\<forall>xs ys. printed (d xs) \<longrightarrow> length (d xs) \<le> length (d (xs @ ys)))"

definition print_inv :: "(int list \<Rightarrow> string) \<Rightarrow> TextStreamer \<Rightarrow> bool" where
  "print_inv d s =
     (detokenizer s = d
      \<and> (print_len s = 0
          \<or> (\<exists>xs ys. token_cache s = xs @ ys \<and> printed (d xs) \<and> print_len s = length (d xs))))"

definition prefix_stable :: "(int list \<Rightarrow> string) \<Rightarrow> bool" where
  "prefix_stable d =
     (\<forall>xs ys. \<not> ends_with_newline (d xs) \<and> \<not> ends_with_replacement (d xs)
        \<longrightarrow> prefix (d xs) (d (xs @ ys)))"

definition newline_compositional :: "(int list \<Rightarrow> string) \<Rightarrow> bool" where
  "newline_compositional d =
     (\<forall>xs ys. ends_with_newline (d xs) \<longrightarrow> d (xs @ ys) = d xs @ d ys)"

definition stream_inv :: "(int list \<Rightarrow> string) \<Rightarrow> string \<Rightarrow> int list \<Rightarrow> TextStreamer \<Rightarrow> bool" where
  "stream_inv d flushed fl s =
     (detokenizer s = d
      \<and> (\<forall>ys. d (fl @ ys) = flushed @ d ys)
      \<and> print_len s \<le> length (d (token_cache s))
      \<and> (\<forall>ys. prefix (take (print_len s) (d (token_cache s))) (d (token_cache s @ ys))))"


subsection \<open>The sampler\<close>

text \<open>
  \<open>first_max xs k\<close>: \<open>k\<close> is the index of a greatest element of \<open>xs\<close> and every element
  before it is strictly smaller. \<open>draws_in_range\<close>: what the C++ standard says of
  \<open>std::discrete_distribution\<close>, that a draw from \<open>n\<close> weights is an index below \<open>n\<close>.
\<close>

definition first_max :: "real list \<Rightarrow> nat \<Rightarrow> bool" where
  "first_max xs k =
     (k < length xs \<and> (\<forall>j < length xs. xs ! j \<le> xs ! k) \<and> (\<forall>j < k. xs ! j < xs ! k))"

definition draws_in_range :: "'r random_ops \<Rightarrow> bool" where
  "draws_in_range R = (\<forall>ws g. ws \<noteq> [] \<longrightarrow> fst (discrete_distribution R ws g) < length ws)"

subsection \<open>The speculative loop\<close>

text \<open>
  \<open>logits_window t off n\<close>: the \<open>n\<close> logits of the tensor \<open>t\<close> from the offset \<open>off\<close>.
  \<open>greedy_choice t off n tok\<close>: the window lies inside the tensor and \<open>tok\<close> is the index
  of its first greatest element. \<open>inferred net r\<close>: the request \<open>r\<close> belongs to the network
  \<open>net\<close> and its logits are those the network returns for the inputs and the past keys and
  values the request holds. \<open>iterations v k st\<close>: the state after \<open>k\<close> executions of the loop
  body from \<open>st\<close>. \<open>same_draft\<close>: two states agree on everything but the target request
  and the target's token.
\<close>

definition logits_window :: "real tensor \<Rightarrow> nat \<Rightarrow> nat \<Rightarrow> real list" where
  "logits_window t off n = take n (drop off (data t))"

definition greedy_choice :: "real tensor \<Rightarrow> nat \<Rightarrow> nat \<Rightarrow> int \<Rightarrow> bool" where
  "greedy_choice t off n tok =
     (off + n \<le> length (data t) \<and> 0 \<le> tok \<and> first_max (logits_window t off n) (nat tok))"

definition inferred :: "network \<Rightarrow> InferRequest \<Rightarrow> bool" where
  "inferred net r =
     (compiled_model r = net
      \<and> t_logits r = fst (net (t_input_ids r) (t_attention_mask r) (t_position_ids r)
                            (past_key r) (past_value r)))"

fun iterations :: "nat \<Rightarrow> nat \<Rightarrow> gen_state \<Rightarrow> fault + gen_state" where
  "iterations v 0 st = Inr st"
| "iterations v (Suc k) st =
     (case iterations v k st of Inl e \<Rightarrow> Inl e | Inr s \<Rightarrow> loop_body v s)"

definition same_draft :: "gen_state \<Rightarrow> gen_state \<Rightarrow> bool" where
  "same_draft a b =
     (lm a = lm b \<and> out_token a = out_token b \<and> text_streamer a = text_streamer b
      \<and> iter a = iter b \<and> cout a = cout b)"

subsection \<open>The API\<close>

text \<open>
  \<open>continuing\<close> is the condition of the loop of the streamed \<open>api_Generate\<close>: the last
  token is no end-of-sequence id and fewer than \<open>n_predict\<close> tokens were produced.
  \<open>same_load_statistics\<close>: two statistics records agree on the durations that no
  generation writes. \<open>replay cb c t b toks\<close> is what the specification asks of the
  streamed interface: the callback is handed each token of \<open>toks\<close> once, in order, with
  the stop flag as the call before left it; the result is the list of the calls (id and
  flag given), the callback's final state, and the id and the flag the last call left
  behind (\<open>t\<close> and \<open>b\<close> when there was no call). \<open>keeps_id\<close>: the callback never
  writes the token id it was given. \<open>clock_nonneg\<close>: the clock never measures a negative
  time for an inference of the loaded request.
\<close>

definition continuing :: "params \<Rightarrow> int list \<Rightarrow> ('v, 'r, 'c) generation \<Rightarrow> bool" where
  "continuing p input_ids g =
     (output_token g \<noteq> eos_token_id (m_tokenizer_config (api g))
      \<and> output_token g \<noteq> im_end_id (m_tokenizer_config (api g))
      \<and> to_size_t (int (length (history_ids g)) - int (length input_ids))
          < to_size_t (n_predict p))"

definition same_load_statistics :: "PerformanceStatistic \<Rightarrow> PerformanceStatistic \<Rightarrow> bool" where
  "same_load_statistics s t =
     (llm_load_duration s = llm_load_duration t
      \<and> llm_unload_duration s = llm_unload_duration t
      \<and> llm_cancel_duration s = llm_cancel_duration t
      \<and> tokenizer_load_duration s = tokenizer_load_duration t)"

fun replay ::
  "'c callback \<Rightarrow> 'c \<Rightarrow> int \<Rightarrow> bool \<Rightarrow> int list \<Rightarrow> (int \<times> bool) list \<times> 'c \<times> int \<times> bool" where
  "replay cb c t b [] = ([], c, t, b)"
| "replay cb c t b (tok # toks) =
     (case cb c tok b of
        (c1, t1, b1) \<Rightarrow>
          (case replay cb c1 t1 b1 toks of (past, r) \<Rightarrow> ((tok, b) # past, r)))"

definition keeps_id :: "'c callback \<Rightarrow> bool" where
  "keeps_id cb = (\<forall>c t b. fst (snd (cb c t b)) = t)"

definition clock_nonneg :: "'v api_interface \<Rightarrow> bool" where
  "clock_nonneg a =
     (case m_infer_request a of
        None \<Rightarrow> True
      | Some r \<Rightarrow> \<forall>ii am pi bi vs. 0 \<le> snd (snd (run (q_engine r) ii am pi bi vs)))"

subsection \<open>Example decoders\<close>

text \<open>
  A decoder given by a table of token sequences, a decoder that concatenates the pieces
  of the tokens, and one that, as the comment above \<open>TextStreamer\<close> says of the
  detokenizer, removes leading spaces from the decoded text.
\<close>

definition table_decoder :: "(int list \<times> string) list \<Rightarrow> int list \<Rightarrow> string" where
  "table_decoder tbl ts = (case map_of tbl ts of None \<Rightarrow> [] | Some text \<Rightarrow> text)"

definition piece_decoder :: "(int \<Rightarrow> string) \<Rightarrow> int list \<Rightarrow> string" where
  "piece_decoder piece ts = concat (map piece ts)"

definition strip_decoder :: "(int \<Rightarrow> string) \<Rightarrow> int list \<Rightarrow> string" where
  "strip_decoder piece ts = dropWhile (\<lambda>c. c = CHR '' '') (concat (map piece ts))"

definition example_piece :: "int \<Rightarrow> string" where
  "example_piece t =
     (if t = 1 then ''x'' @ [newline] else if t = 2 then '' a''
      else if t = 3 then replacement else ''b'')"

text \<open>
  A byte-level decoder: token 2 is the first byte of a two-byte character and token 3
  its second byte; a text that would end in the first byte alone ends in the replacement
  character instead (three bytes, where the completed character has two).
\<close>

definition glyph_piece :: "int \<Rightarrow> string" where
  "glyph_piece t =
     (if t = 1 then ''x'' else if t = 2 then [CHR 0xC3] else if t = 3 then [CHR 0xA9] else ''y'')"

definition glyph_decoder :: "int list \<Rightarrow> string" where
  "glyph_decoder ts =
     (let bytes = concat (map glyph_piece ts)
      in if bytes \<noteq> [] \<and> last bytes = CHR 0xC3 then butlast bytes @ replacement else bytes)"

definition shrinking_table :: "(int list \<times> string) list" where
  "shrinking_table = [([1], ''abcd''), ([1, 2], ''ab'' @ [newline])]"

definition glyph_table :: "(int list \<times> string) list" where
  "glyph_table = [([1], ''abcd''), ([1, 2], replacement)]"


subsection \<open>Example models of the speculative sample\<close>

text \<open>
  A network that returns the same logits for every position, an environment of two such
  networks over a vocabulary of three tokens, and a state of the loop after a prefill.
\<close>

definition example_network :: "real list \<Rightarrow> network" where
  "example_network lg =
     (\<lambda>ii am pi pk pv.
        (\<lparr>shape = [BATCH_SIZE, length (data ii), length lg],
          data = concat (replicate (length (data ii)) lg)\<rparr>, pk, pv))"

definition example_env :: environment where
  "example_env =
     \<lparr>tokenizer = (\<lambda>prompt. (\<lparr>shape = [1, 2], data = [5, 6]\<rparr>, \<lparr>shape = [1, 2], data = [1, 1]\<rparr>)),
      detokenizer_model = piece_decoder example_piece,
      draft_network = example_network [0, 1, 0],
      target_network = example_network [0, 0, 1]\<rparr>"

definition example_request :: "real list \<Rightarrow> InferRequest" where
  "example_request lg =
     (empty_request (example_network lg))
       \<lparr>t_input_ids := \<lparr>shape = [1, 1], data = [5]\<rparr>,
        t_attention_mask := \<lparr>shape = [1, 2], data = [1, 1]\<rparr>,
        t_position_ids := \<lparr>shape = [1, 1], data = [0]\<rparr>,
        t_logits := \<lparr>shape = [1, 1, 3], data = lg\<rparr>\<rparr>"

definition example_state :: gen_state where
  "example_state =
     \<lparr>lm = example_request [0, 1, 0], lm_target = example_request [0, 0, 1],
      out_token = 1, target_out_token = 2,
      text_streamer = initial_streamer (piece_decoder example_piece),
      iter = 0, cout = []\<rparr>"

subsection \<open>Example parameters\<close>

text \<open>
  Parameters with greedy decoding and a repetition penalty of 2, and a generator whose
  draw is always the first index.
\<close>

definition example_params :: params where
  "example_params =
     \<lparr>model_path = [], tokenizer_path = [], n_ctx = 2048, n_predict = 512, do_sample = False,
      top_k = 40, top_p = 9 / 10, temperature = 1 / 5, repeat_penalty = 2, repeat_last_n = 32,
      seed = - 1, model_cache_dir = [], device = ''CPU'', verbose = True\<rparr>"

definition example_random :: "unit random_ops" where
  "example_random = \<lparr>mt19937 = (\<lambda>s. ()), discrete_distribution = (\<lambda>ws g. (0, ()))\<rparr>"

subsection \<open>Example engine and API object\<close>

text \<open>
  An engine over a vocabulary of three tokens whose variable state counts the inferences:
  it prefers token 2 twice and then token 0, the end-of-sequence id of the example
  configuration. A callback that sets the stop flag, one that leaves it alone, and one
  that sets the flag and overwrites the token id.
\<close>

definition example_engine :: "nat engine" where
  "example_engine =
     \<lparr>run = (\<lambda>ii am pi bi vs.
              (\<lparr>shape = [1, 1, 3],
                data = (if sum_list vs < 2 then [0, 0, 1] else [1, 0, 0])\<rparr>,
               map Suc vs, 1)),
      reset_variable = (\<lambda>v. 0)\<rparr>"

definition example_tokenizer :: QwenTokenizer where
  "example_tokenizer = \<lparr>encode = (\<lambda>prompt n. [7]), decode = piece_decoder example_piece\<rparr>"

definition example_stateful_request :: "nat StatefulRequest" where
  "example_stateful_request =
     \<lparr>q_engine = example_engine,
      q_input_ids = \<lparr>shape = [], data = []\<rparr>,
      q_attention_mask = \<lparr>shape = [], data = []\<rparr>,
      q_position_ids = \<lparr>shape = [], data = []\<rparr>,
      q_beam_idx = \<lparr>shape = [], data = []\<rparr>,
      q_logits = \<lparr>shape = [], data = []\<rparr>,
      q_state = [5]\<rparr>"

definition example_api :: "nat api_interface" where
  "example_api =
     \<lparr>m_infer_request = Some example_stateful_request,
      m_perf_statistic = zero_statistic\<lparr>llm_load_duration := 5\<rparr>,
      m_tokenizer_config = \<lparr>eos_token_id = 0, im_end_id = 1\<rparr>,
      m_tokenizer = Some example_tokenizer,
      m_vocab_size = 3,
      m_api_status = loaded,
      m_new_token_id = 1,
      m_stop_generation = False\<rparr>"

definition example_generation :: "(nat, unit, unit) generation" where
  "example_generation =
     \<lparr>api = example_api, generator = None, callback_state = (), calls = [],
      output_token = 0, history_ids = [], output_ids = []\<rparr>"

definition stopping_callback :: "unit callback" where
  "stopping_callback = (\<lambda>c t b. (c, t, True))"

definition listening_callback :: "unit callback" where
  "listening_callback = (\<lambda>c t b. (c, t, b))"

definition rewriting_callback :: "unit callback" where
  "rewriting_callback = (\<lambda>c t b. (c, 99, True))"

definition plain_params :: params where
  "plain_params = example_params\<lparr>repeat_penalty := 1\<rparr>"

definition example_started :: "(nat, unit, unit) generation" where
  "example_started =
     example_generation
       \<lparr>api := example_api
          \<lparr>m_infer_request := Some
             (example_stateful_request
                \<lparr>q_input_ids := \<lparr>shape = [1, 1], data = [7]\<rparr>,
                 q_attention_mask := \<lparr>shape = [1, 1], data = [1]\<rparr>,
                 q_position_ids := \<lparr>shape = [1, 1], data = [0]\<rparr>,
                 q_state := [1]\<rparr>)\<rparr>,
        output_token := 2, history_ids := [7, 2], output_ids := [2]\<rparr>"

section \<open>Properties\<close>

subsection \<open>convert_to_vector\<close>

text \<open>
  C10 (as amended). For every tensor of rank at least 1 the loop of \<open>convert_to_vector\<close>
  is left before its first iteration: the result is the empty vector. So \<open>append_element\<close>
  builds its tensor over a vector that holds the appended element alone, under a shape
  that still names the last dimension of its argument; the vector is gone when the
  tensor reaches the caller.
\<close>

theorem convert_to_vector_empty:
  "shape t \<noteq> [] \<longrightarrow>
     convert_to_vector t = Inr []
     \<and> append_element t e
         = Inr ([e], \<lparr>host_shape = [BATCH_SIZE, last (shape t)], wrapped_buffer = None\<rparr>)"
  by (simp add: convert_to_vector_def append_element_def convert_loop.simps)

theorem convert_to_vector_empty_witness:
  "shape \<lparr>shape = [1, 3], data = [5, 6, 7 :: int]\<rparr> \<noteq> []
   \<and> convert_to_vector \<lparr>shape = [1, 3], data = [5, 6, 7]\<rparr> = Inr []
   \<and> append_element \<lparr>shape = [1, 3], data = [5, 6, 7]\<rparr> 9
       = Inr ([9], \<lparr>host_shape = [1, 3], wrapped_buffer = None\<rparr>)"
  using convert_to_vector_empty [of "\<lparr>shape = [1, 3], data = [5, 6, 7]\<rparr>" 9]
  by (simp add: BATCH_SIZE_def)

text \<open>
  C10 as stated fails for a tensor of rank 0: the loop condition reads the last element
  of an empty shape, and neither function returns a vector.
\<close>

theorem convert_to_vector_rank_0:
  "convert_to_vector \<lparr>shape = [], data = [5]\<rparr> = Inl EmptyShape
   \<and> append_element \<lparr>shape = [], data = [5]\<rparr> 9 = Inl EmptyShape"
  by (simp add: convert_to_vector_def append_element_def convert_loop.simps)

subsection \<open>TextStreamer: one call of put\<close>

lemma newline_check: "(text \<noteq> [] \<and> last text = newline) = ends_with_newline text"
proof
  assume "text \<noteq> [] \<and> last text = newline"
  then have "text = butlast text @ [newline]" by (metis append_butlast_last_id)
  then show "ends_with_newline text" unfolding ends_with_newline_def suffix_def by blast
next
  assume "ends_with_newline text"
  then show "text \<noteq> [] \<and> last text = newline"
    by (auto simp: ends_with_newline_def suffix_def)
qed

lemma replacement_check:
  "(3 \<le> length text \<and> drop (length text - 3) text = replacement) = ends_with_replacement text"
proof
  assume a: "3 \<le> length text \<and> drop (length text - 3) text = replacement"
  have "text = take (length text - 3) text @ drop (length text - 3) text" by simp
  with a have "text = take (length text - 3) text @ replacement" by simp
  then show "ends_with_replacement text" unfolding ends_with_replacement_def suffix_def by blast
next
  assume "ends_with_replacement text"
  then obtain zs where "text = zs @ replacement"
    by (auto simp: ends_with_replacement_def suffix_def)
  then show "3 \<le> length text \<and> drop (length text - 3) text = replacement"
    by (simp add: replacement_def)
qed

lemma put_eq:
  "put s token =
     (let text = detokenizer s (token_cache s @ [token])
      in if ends_with_newline text then
           (if print_len s \<le> length text
            then Inr (drop (print_len s) text, s\<lparr>token_cache := [], print_len := 0\<rparr>)
            else Inl OutOfBounds)
         else if ends_with_replacement text then
           Inr ([], s\<lparr>token_cache := token_cache s @ [token]\<rparr>)
         else if print_len s \<le> length text
           then Inr (drop (print_len s) text,
                  s\<lparr>token_cache := token_cache s @ [token], print_len := length text\<rparr>)
           else Inl OutOfBounds)"
  unfolding put_def Let_def detokenize_def newline_check replacement_check string_view_from_def
  by simp

text \<open>
  C5 (as amended). With \<open>text\<close> the decoding of the cache extended by the token: if
  \<open>text\<close> ends in a newline and \<open>print_len\<close> does not exceed its length, \<open>put\<close> emits
  the text from \<open>print_len\<close> on, clears the cache and resets \<open>print_len\<close>; otherwise, if
  \<open>text\<close> ends in the replacement character, \<open>put\<close> emits nothing and only the cache
  grows; otherwise, if \<open>print_len\<close> does not exceed the length of \<open>text\<close>, \<open>put\<close> emits the
  text from \<open>print_len\<close> on and sets \<open>print_len\<close> to that length. Where \<open>put\<close> would print
  and \<open>print_len\<close> exceeds the length of \<open>text\<close>, the view it prints lies outside the text.
\<close>

theorem put_cases:
  "let text = detokenizer s (token_cache s @ [token]) in
     (ends_with_newline text \<and> print_len s \<le> length text \<longrightarrow>
        put s token = Inr (drop (print_len s) text, s\<lparr>token_cache := [], print_len := 0\<rparr>))
   \<and> (\<not> ends_with_newline text \<and> ends_with_replacement text \<longrightarrow>
        put s token = Inr ([], s\<lparr>token_cache := token_cache s @ [token]\<rparr>))
   \<and> (\<not> ends_with_newline text \<and> \<not> ends_with_replacement text \<and> print_len s \<le> length text \<longrightarrow>
        put s token = Inr (drop (print_len s) text,
                        s\<lparr>token_cache := token_cache s @ [token], print_len := length text\<rparr>))
   \<and> ((ends_with_newline text \<or> \<not> ends_with_replacement text) \<and> length text < print_len s \<longrightarrow>
        put s token = Inl OutOfBounds)"
  by (auto simp: put_eq Let_def)


text \<open>
  The four cases of a call of \<open>put\<close>, at concrete states of a concatenating decoder.
\<close>

theorem put_cases_witness:
  "put (initial_streamer (piece_decoder example_piece)) 1
     = Inr (''x'' @ [newline], initial_streamer (piece_decoder example_piece))
   \<and> put (initial_streamer (piece_decoder example_piece)) 3
     = Inr ([], \<lparr>detokenizer = piece_decoder example_piece, token_cache = [3], print_len = 0\<rparr>)
   \<and> put \<lparr>detokenizer = piece_decoder example_piece, token_cache = [4], print_len = 1\<rparr> 2
     = Inr ('' a'', \<lparr>detokenizer = piece_decoder example_piece, token_cache = [4, 2],
                     print_len = 3\<rparr>)
   \<and> put \<lparr>detokenizer = piece_decoder example_piece, token_cache = [], print_len = 4\<rparr> 2
     = Inl OutOfBounds"
  using put_cases [of "initial_streamer (piece_decoder example_piece)" 1]
    put_cases [of "initial_streamer (piece_decoder example_piece)" 3]
    put_cases [of "\<lparr>detokenizer = piece_decoder example_piece, token_cache = [4], print_len = 1\<rparr>" 2]
    put_cases [of "\<lparr>detokenizer = piece_decoder example_piece, token_cache = [], print_len = 4\<rparr>" 2]
  by (simp add: table_decoder_def piece_decoder_def example_piece_def initial_streamer_def
      newline_def replacement_def newline_check [symmetric] replacement_check [symmetric] Let_def)

text \<open>
  C5 as stated fails where the decoded text is shorter than what was printed: the
  decoder of \<open>shrinking_table\<close> gives \<open>abcd\<close> for the token 1 and \<open>ab\<close> with a newline for
  the tokens 1, 2. The first \<open>put\<close> prints four characters; the second finds a text of three
  characters ending in a newline and prints from position 4.
\<close>

theorem put_out_of_bounds:
  "put (initial_streamer (table_decoder shrinking_table)) 1
     = Inr (''abcd'', \<lparr>detokenizer = table_decoder shrinking_table, token_cache = [1],
                      print_len = 4\<rparr>)
   \<and> ends_with_newline (table_decoder shrinking_table [1, 2])
   \<and> put \<lparr>detokenizer = table_decoder shrinking_table, token_cache = [1], print_len = 4\<rparr> 2
       = Inl OutOfBounds"
  by (simp add: table_decoder_def piece_decoder_def strip_decoder_def example_piece_def
      shrinking_table_def glyph_table_def initial_streamer_def newline_def replacement_def
      newline_check [symmetric] replacement_check [symmetric] put_def end_stream_def
      detokenize_def string_view_from_def Let_def)

subsection \<open>TextStreamer: the invariant\<close>

lemma end_stream_eq:
  "end_stream s =
     (let text = detokenizer s (token_cache s)
      in if print_len s \<le> length text
         then Inr (drop (print_len s) text @ [newline], s\<lparr>token_cache := [], print_len := 0\<rparr>)
         else Inl OutOfBounds)"
  by (simp add: end_stream_def Let_def detokenize_def string_view_from_def)

lemma put_detokenizer: "put s t = Inr (c, s') \<Longrightarrow> detokenizer s' = detokenizer s"
  by (auto simp: put_eq Let_def split: if_splits)

lemma end_stream_detokenizer: "end_stream s = Inr (c, s') \<Longrightarrow> detokenizer s' = detokenizer s"
  by (auto simp: end_stream_eq Let_def split: if_splits)

lemma kept_covers: "printed_text_kept d \<Longrightarrow> held_text_covers d"
  by (simp add: printed_text_kept_def held_text_covers_def)

lemma put_print_inv:
  assumes a: "held_text_covers d" and k: "print_inv d s" and p: "put s t = Inr (c, s')"
  shows "print_inv d s' \<and> streamer_inv s'"
proof -
  let ?c = "token_cache s @ [t]"
  let ?T = "d ?c"
  from k have dd: "detokenizer s = d" by (simp add: print_inv_def)
  from k have cov: "ends_with_replacement ?T \<Longrightarrow> print_len s \<le> length ?T"
  proof -
    assume r: "ends_with_replacement ?T"
    from k consider "print_len s = 0"
      | xs ys where "token_cache s = xs @ ys" and "printed (d xs)" and "print_len s = length (d xs)"
      by (auto simp: print_inv_def)
    then show "print_len s \<le> length ?T"
    proof cases
      case 1
      then show ?thesis by simp
    next
      case 2
      have "?c = xs @ (ys @ [t])" using 2(1) by simp
      with r have "ends_with_replacement (d (xs @ (ys @ [t])))" by simp
      with a 2(2) have "length (d xs) \<le> length (d (xs @ (ys @ [t])))"
        unfolding held_text_covers_def by blast
      then show ?thesis using 2(1,3) by simp
    qed
  qed
  consider (nl) "ends_with_newline ?T"
    | (rep) "\<not> ends_with_newline ?T" and "ends_with_replacement ?T"
    | (plain) "\<not> ends_with_newline ?T" and "\<not> ends_with_replacement ?T"
    by blast
  then show ?thesis
  proof cases
    case nl
    with p dd have "s' = s\<lparr>token_cache := [], print_len := 0\<rparr>"
      by (auto simp: put_eq Let_def split: if_splits)
    then show ?thesis using dd by (simp add: print_inv_def streamer_inv_def)
  next
    case rep
    with p dd have s': "s' = s\<lparr>token_cache := ?c\<rparr>"
      by (auto simp: put_eq Let_def split: if_splits)
    have i: "streamer_inv s'" using s' dd cov [OF rep(2)] by (simp add: streamer_inv_def)
    from k have "print_len s = 0
        \<or> (\<exists>xs ys. ?c = xs @ ys \<and> printed (d xs) \<and> print_len s = length (d xs))"
      unfolding print_inv_def by (metis append.assoc)
    then have "print_inv d s'" using s' dd by (simp add: print_inv_def)
    with i show ?thesis by blast
  next
    case plain
    with p dd have s': "s' = s\<lparr>token_cache := ?c, print_len := length ?T\<rparr>"
      by (auto simp: put_eq Let_def split: if_splits)
    have i: "streamer_inv s'" using s' dd by (simp add: streamer_inv_def)
    have "printed ?T" using plain by (simp add: printed_def)
    then have "\<exists>xs ys. ?c = xs @ ys \<and> printed (d xs) \<and> length ?T = length (d xs)"
      by (intro exI [of _ ?c] exI [of _ "[]"]) simp
    then have "print_inv d s'" using s' dd by (simp add: print_inv_def)
    with i show ?thesis by blast
  qed
qed

lemma end_print_inv:
  assumes k: "print_inv d s" and p: "end_stream s = Inr (c, s')"
  shows "print_inv d s' \<and> streamer_inv s'"
proof -
  from p have "s' = s\<lparr>token_cache := [], print_len := 0\<rparr>"
    by (auto simp: end_stream_eq Let_def split: if_splits)
  then show ?thesis using k by (simp add: print_inv_def streamer_inv_def)
qed

lemma put_in_range:
  assumes b: "printed_text_kept d" and k: "print_inv d s"
  shows "\<exists>c s'. put s t = Inr (c, s')"
proof -
  let ?T = "d (token_cache s @ [t])"
  from k have dd: "detokenizer s = d" by (simp add: print_inv_def)
  from k consider "print_len s = 0"
    | xs ys where "token_cache s = xs @ ys" and "printed (d xs)" and "print_len s = length (d xs)"
    by (auto simp: print_inv_def)
  then have "print_len s \<le> length ?T"
  proof cases
    case 1
    then show ?thesis by simp
  next
    case 2
    from b 2(2) have "length (d xs) \<le> length (d (xs @ (ys @ [t])))"
      unfolding printed_text_kept_def by blast
    then show ?thesis using 2(1,3) by simp
  qed
  then show ?thesis using dd by (simp add: put_eq Let_def)
qed

lemma end_in_range:
  assumes b: "printed_text_kept d" and k: "print_inv d s"
  shows "\<exists>c s'. end_stream s = Inr (c, s')"
proof -
  from k have dd: "detokenizer s = d" by (simp add: print_inv_def)
  from k consider "print_len s = 0"
    | xs ys where "token_cache s = xs @ ys" and "printed (d xs)" and "print_len s = length (d xs)"
    by (auto simp: print_inv_def)
  then have "print_len s \<le> length (d (token_cache s))"
  proof cases
    case 1
    then show ?thesis by simp
  next
    case 2
    from b 2(2) have "length (d xs) \<le> length (d (xs @ ys))"
      unfolding printed_text_kept_def by blast
    then show ?thesis using 2(1,3) by simp
  qed
  then show ?thesis using dd by (simp add: end_stream_eq Let_def)
qed

lemma run_calls_print_inv:
  "held_text_covers d \<Longrightarrow> print_inv d s \<Longrightarrow> streamer_inv s \<Longrightarrow> run_calls s cs = Inr s'
     \<Longrightarrow> streamer_inv s'"
proof (induction cs arbitrary: s)
  case Nil
  then show ?case by simp
next
  case (Cons c cs)
  show ?case
  proof (cases c)
    case (Put t)
    with Cons.prems(4) obtain ch s1 where p: "put s t = Inr (ch, s1)"
      and r: "run_calls s1 cs = Inr s'"
      by (auto split: sum.splits)
    from put_print_inv [OF Cons.prems(1,2) p] Cons.IH [OF Cons.prems(1) _ _ r]
    show ?thesis by blast
  next
    case End
    with Cons.prems(4) obtain ch s1 where p: "end_stream s = Inr (ch, s1)"
      and r: "run_calls s1 cs = Inr s'"
      by (auto split: sum.splits)
    from end_print_inv [OF Cons.prems(2) p] Cons.IH [OF Cons.prems(1) _ _ r]
    show ?thesis by blast
  qed
qed

lemma run_calls_in_range:
  "printed_text_kept d \<Longrightarrow> print_inv d s \<Longrightarrow> \<exists>s'. run_calls s cs = Inr s'"
proof (induction cs arbitrary: s)
  case Nil
  then show ?case by simp
next
  case (Cons c cs)
  show ?case
  proof (cases c)
    case (Put t)
    from put_in_range [OF Cons.prems, of t] obtain ch s1 where p: "put s t = Inr (ch, s1)"
      by blast
    from put_print_inv [OF kept_covers [OF Cons.prems(1)] Cons.prems(2) p]
    have "print_inv d s1" ..
    from Cons.IH [OF Cons.prems(1) this] p Put show ?thesis by simp
  next
    case End
    from end_in_range [OF Cons.prems] obtain ch s1 where p: "end_stream s = Inr (ch, s1)"
      by blast
    from end_print_inv [OF Cons.prems(2) p] have "print_inv d s1" ..
    from Cons.IH [OF Cons.prems(1) this] p End show ?thesis by simp
  qed
qed

lemma initial_print_inv: "print_inv d (initial_streamer d)" "streamer_inv (initial_streamer d)"
  by (simp_all add: print_inv_def streamer_inv_def initial_streamer_def)



text \<open>
  The byte-level decoder satisfies both conditions although its text gets shorter when
  token 3 completes the character: the second \<open>put\<close> below holds the text back.
\<close>

lemma glyph_decoder_length: "length (concat (map glyph_piece ts)) \<le> length (glyph_decoder ts)"
  by (simp add: glyph_decoder_def Let_def replacement_def)

lemma glyph_decoder_printed:
  assumes "printed (glyph_decoder ts)"
  shows "glyph_decoder ts = concat (map glyph_piece ts)"
proof (rule ccontr)
  assume "glyph_decoder ts \<noteq> concat (map glyph_piece ts)"
  then have "glyph_decoder ts = butlast (concat (map glyph_piece ts)) @ replacement"
    by (auto simp: glyph_decoder_def Let_def)
  then have "ends_with_replacement (glyph_decoder ts)"
    by (simp add: ends_with_replacement_def suffix_def)
  with assms show False by (simp add: printed_def)
qed

lemma glyph_decoder_kept: "printed_text_kept glyph_decoder"
  unfolding printed_text_kept_def
proof (intro allI impI)
  fix xs ys
  assume "printed (glyph_decoder xs)"
  then have "glyph_decoder xs = concat (map glyph_piece xs)"
    by (rule glyph_decoder_printed)
  then have "length (glyph_decoder xs) = length (concat (map glyph_piece xs))"
    by (rule arg_cong)
  also have "\<dots> \<le> length (concat (map glyph_piece (xs @ ys)))" by simp
  also have "\<dots> \<le> length (glyph_decoder (xs @ ys))" by (rule glyph_decoder_length)
  finally show "length (glyph_decoder xs) \<le> length (glyph_decoder (xs @ ys))" .
qed



subsection \<open>TextStreamer: streaming and batch decoding\<close>

lemma prefix_take_eq:
  assumes "prefix (take n xs) ys" and "n \<le> length xs"
  shows "take n ys = take n xs" and "n \<le> length ys"
proof -
  from assms(1) obtain zs where ys: "ys = take n xs @ zs" by (auto simp: prefix_def)
  with assms(2) show "take n ys = take n xs" by simp
  from ys assms(2) show "n \<le> length ys" by simp
qed

lemma put_stream_inv:
  assumes st: "prefix_stable d" and nc: "newline_compositional d"
    and inv: "stream_inv d flushed fl s"
  shows "\<exists>chunk s' flushed' fl'.
           put s t = Inr (chunk, s') \<and> stream_inv d flushed' fl' s'
           \<and> fl' @ token_cache s' = fl @ token_cache s @ [t]
           \<and> flushed' @ take (print_len s') (d (token_cache s'))
               = flushed @ take (print_len s) (d (token_cache s)) @ chunk"
proof -
  let ?c = "token_cache s @ [t]"
  let ?T = "d ?c"
  let ?n = "print_len s"
  from inv have dd: "detokenizer s = d"
    and fl: "\<And>ys. d (fl @ ys) = flushed @ d ys"
    and le: "?n \<le> length (d (token_cache s))"
    and pre: "\<And>ys. prefix (take ?n (d (token_cache s))) (d (token_cache s @ ys))"
    by (auto simp: stream_inv_def)
  from prefix_take_eq [OF pre [of "[t]"] le]
  have tk: "take ?n ?T = take ?n (d (token_cache s))" and leT: "?n \<le> length ?T" by auto
  have whole: "take ?n (d (token_cache s)) @ drop ?n ?T = ?T"
    using tk by (metis append_take_drop_id)
  consider (nl) "ends_with_newline ?T"
    | (rep) "\<not> ends_with_newline ?T" and "ends_with_replacement ?T"
    | (plain) "\<not> ends_with_newline ?T" and "\<not> ends_with_replacement ?T"
    by blast
  then show ?thesis
  proof cases
    case nl
    let ?s' = "s\<lparr>token_cache := [], print_len := 0\<rparr>"
    have p: "put s t = Inr (drop ?n ?T, ?s')"
      using nl leT dd by (simp add: put_eq Let_def)
    have comp: "\<And>ys. d (?c @ ys) = ?T @ d ys"
      using nc nl unfolding newline_compositional_def by blast
    have "d ((fl @ ?c) @ ys) = (flushed @ ?T) @ d ys" for ys
    proof -
      have "d ((fl @ ?c) @ ys) = d (fl @ (?c @ ys))" by simp
      also have "\<dots> = flushed @ d (?c @ ys)" by (rule fl)
      also have "\<dots> = flushed @ (?T @ d ys)" by (simp only: comp)
      also have "\<dots> = (flushed @ ?T) @ d ys" by simp
      finally show ?thesis .
    qed
    then have i: "stream_inv d (flushed @ ?T) (fl @ ?c) ?s'"
      unfolding stream_inv_def using dd by simp
    show ?thesis
      using p i whole by (intro exI [of _ "drop ?n ?T"] exI [of _ ?s']
          exI [of _ "flushed @ ?T"] exI [of _ "fl @ ?c"]) simp
  next
    case rep
    let ?s' = "s\<lparr>token_cache := ?c\<rparr>"
    have p: "put s t = Inr ([], ?s')"
      using rep dd by (simp add: put_eq Let_def)
    have "prefix (take ?n ?T) (d (?c @ ys))" for ys
      using pre [of "[t] @ ys"] tk by simp
    then have i: "stream_inv d flushed fl ?s'"
      unfolding stream_inv_def using dd fl leT by simp
    show ?thesis
      using p i tk by (intro exI [of _ "[]"] exI [of _ ?s']
          exI [of _ flushed] exI [of _ fl]) simp
  next
    case plain
    let ?s' = "s\<lparr>token_cache := ?c, print_len := length ?T\<rparr>"
    have p: "put s t = Inr (drop ?n ?T, ?s')"
      using plain leT dd by (simp add: put_eq Let_def)
    have "prefix ?T (d (?c @ ys))" for ys
      using st plain unfolding prefix_stable_def by blast
    then have i: "stream_inv d flushed fl ?s'"
      unfolding stream_inv_def using dd fl by simp
    show ?thesis
      using p i whole by (intro exI [of _ "drop ?n ?T"] exI [of _ ?s']
          exI [of _ flushed] exI [of _ fl]) simp
  qed
qed

lemma put_all_stream_inv:
  assumes st: "prefix_stable d" and nc: "newline_compositional d"
  shows "stream_inv d flushed fl s \<Longrightarrow>
         \<exists>out s' flushed' fl'.
           put_all s ts = Inr (out, s') \<and> stream_inv d flushed' fl' s'
           \<and> fl' @ token_cache s' = fl @ token_cache s @ ts
           \<and> flushed' @ take (print_len s') (d (token_cache s'))
               = flushed @ take (print_len s) (d (token_cache s)) @ out"
proof (induction ts arbitrary: s flushed fl)
  case Nil
  then show ?case by auto
next
  case (Cons t ts)
  from put_stream_inv [OF st nc Cons.prems, of t] obtain chunk s1 flushed1 fl1 where
    p: "put s t = Inr (chunk, s1)" and i1: "stream_inv d flushed1 fl1 s1"
    and t1: "fl1 @ token_cache s1 = fl @ token_cache s @ [t]"
    and o1: "flushed1 @ take (print_len s1) (d (token_cache s1))
               = flushed @ take (print_len s) (d (token_cache s)) @ chunk"
    by blast
  from Cons.IH [OF i1] obtain out s2 flushed2 fl2 where
    q: "put_all s1 ts = Inr (out, s2)" and i2: "stream_inv d flushed2 fl2 s2"
    and t2: "fl2 @ token_cache s2 = fl1 @ token_cache s1 @ ts"
    and o2: "flushed2 @ take (print_len s2) (d (token_cache s2))
               = flushed1 @ take (print_len s1) (d (token_cache s1)) @ out"
    by blast
  have r: "put_all s (t # ts) = Inr (chunk @ out, s2)"
    using p q by simp
  have t3: "fl2 @ token_cache s2 = fl @ token_cache s @ t # ts"
    using t1 t2 by (metis append.assoc append_Cons append_Nil)
  have o3: "flushed2 @ take (print_len s2) (d (token_cache s2))
               = flushed @ take (print_len s) (d (token_cache s)) @ chunk @ out"
    using o1 o2 by (metis append.assoc)
  from r i2 t3 o3 show ?case by blast
qed



lemma piece_decoder_stable: "prefix_stable (piece_decoder piece)"
  by (simp add: prefix_stable_def piece_decoder_def)

lemma piece_decoder_compositional: "newline_compositional (piece_decoder piece)"
  by (simp add: newline_compositional_def piece_decoder_def)






subsection \<open>The speculative loop\<close>

lemma decode_step_input_ids:
  "decode_step r token n = Inr r' \<Longrightarrow> t_input_ids r' = set_first (t_input_ids r) token"
  by (auto simp: decode_step_def Let_def infer_def set_key_values_def
      split: if_splits prod.splits)

lemma loop_body_Inr:
  assumes "loop_body v st = Inr st'"
  shows "\<exists>d t chunk ts lg.
      decode_step (lm st) (out_token st) tiny_llama_kv_size = Inr d
    \<and> decode_step (lm_target st) (target_out_token st) llama_kv_size = Inr t
    \<and> put (text_streamer st) (out_token st) = Inr (chunk, ts)
    \<and> read_floats (t_logits d) 0 v = Inr lg
    \<and> st' = st\<lparr>lm := d, lm_target := t, out_token := int (max_element lg),
                 text_streamer := ts, iter := iter st + 1, cout := cout st @ chunk\<rparr>"
  using assms by (auto simp: loop_body_def split: sum.splits prod.splits)

lemma loop_body_same_draft:
  assumes "same_draft a b" and "loop_body v a = Inr a'" and "loop_body v b = Inr b'"
  shows "same_draft a' b'"
proof -
  from loop_body_Inr [OF assms(2)] obtain d t chunk ts lg where a:
    "decode_step (lm a) (out_token a) tiny_llama_kv_size = Inr d"
    "put (text_streamer a) (out_token a) = Inr (chunk, ts)"
    "read_floats (t_logits d) 0 v = Inr lg"
    "a' = a\<lparr>lm := d, lm_target := t, out_token := int (max_element lg),
                 text_streamer := ts, iter := iter a + 1, cout := cout a @ chunk\<rparr>"
    by blast
  from loop_body_Inr [OF assms(3)] obtain d2 t2 chunk2 ts2 lg2 where b:
    "decode_step (lm b) (out_token b) tiny_llama_kv_size = Inr d2"
    "put (text_streamer b) (out_token b) = Inr (chunk2, ts2)"
    "read_floats (t_logits d2) 0 v = Inr lg2"
    "b' = b\<lparr>lm := d2, lm_target := t2, out_token := int (max_element lg2),
                 text_streamer := ts2, iter := iter b + 1, cout := cout b @ chunk2\<rparr>"
    by blast
  from assms(1) a(1-3) b(1-3) have "d = d2" "chunk = chunk2" "ts = ts2" "lg = lg2"
    by (auto simp: same_draft_def)
  with assms(1) a(4) b(4) show ?thesis
    by (simp add: same_draft_def)
qed

lemma generation_loop_same_draft:
  "same_draft a b \<Longrightarrow> generation_loop v m a = Inr s1 \<Longrightarrow> generation_loop v m b = Inr s2
     \<Longrightarrow> same_draft s1 s2"
proof (induction v m a arbitrary: b rule: generation_loop.induct)
  case (1 v m a)
  show ?case
  proof (cases "out_token a \<noteq> SPECIAL_EOS_TOKEN \<and> iter a < m")
    case False
    with "1.prems" have "s1 = a" and "s2 = b"
      by (auto simp: same_draft_def generation_loop.simps [of v m a]
          generation_loop.simps [of v m b])
    with "1.prems"(1) show ?thesis by simp
  next
    case True
    then have cb: "out_token b \<noteq> SPECIAL_EOS_TOKEN \<and> iter b < m"
      using "1.prems"(1) by (simp add: same_draft_def)
    from True "1.prems"(2) obtain a' where a': "loop_body v a = Inr a'"
      and ra: "generation_loop v m a' = Inr s1"
      by (auto simp: generation_loop.simps [of v m a] split: sum.splits)
    from cb "1.prems"(3) obtain b' where b': "loop_body v b = Inr b'"
      and rb: "generation_loop v m b' = Inr s2"
      by (auto simp: generation_loop.simps [of v m b] split: sum.splits)
    from loop_body_same_draft [OF "1.prems"(1) a' b'] have "same_draft a' b'" .
    from "1.IH" [OF True a' this ra rb] show ?thesis .
  qed
qed

lemma single_token_shape_logits: "t_logits (single_token_shape r) = t_logits r"
  by (simp add: single_token_shape_def Let_def)

lemma generation_loop_stop:
  "\<not> (out_token st \<noteq> SPECIAL_EOS_TOKEN \<and> iter st < m) \<Longrightarrow> generation_loop v m st = Inr st"
  by (subst generation_loop.simps) auto

lemma generation_loop_step:
  "out_token st \<noteq> SPECIAL_EOS_TOKEN \<and> iter st < m \<Longrightarrow>
     generation_loop v m st =
       (case loop_body v st of Inl e \<Rightarrow> Inl e | Inr st' \<Rightarrow> generation_loop v m st')"
  by (subst generation_loop.simps) simp

lemma loop_body_iter: "loop_body v st = Inr st' \<Longrightarrow> iter st' = iter st + 1"
  by (auto dest: loop_body_Inr)

lemma generation_loop_iter:
  "generation_loop v m st = Inr st' \<Longrightarrow>
     iter st \<le> iter st' \<and> iter st' \<le> max (iter st) m
     \<and> (out_token st' = SPECIAL_EOS_TOKEN \<or> m \<le> iter st')"
proof (induction v m st rule: generation_loop.induct)
  case (1 v m st)
  show ?case
  proof (cases "out_token st \<noteq> SPECIAL_EOS_TOKEN \<and> iter st < m")
    case False
    with "1.prems" have "st' = st" by (simp add: generation_loop_stop)
    with False show ?thesis by auto
  next
    case True
    with "1.prems" obtain s where b: "loop_body v st = Inr s"
      and r: "generation_loop v m s = Inr st'"
      by (auto simp: generation_loop_step split: sum.splits)
    from "1.IH" [OF True b r] loop_body_iter [OF b] True show ?thesis by auto
  qed
qed

lemma example_body: "\<exists>st'. loop_body 3 example_state = Inr st'"
  by (simp add: loop_body_def example_state_def example_request_def decode_step_def Let_def
      example_network_def infer_def set_key_values_def empty_request_def set_shape_def
      set_first_def get_size_def fill_n_def read_floats_def BATCH_SIZE_def
      put_def detokenize_def initial_streamer_def piece_decoder_def example_piece_def
      string_view_from_def newline_def replacement_def)


lemma example_body_other:
  "\<exists>st'. loop_body 3
           (example_state\<lparr>lm_target := example_request [0, 1, 0], target_out_token := 7\<rparr>)
         = Inr st'"
  by (simp add: loop_body_def example_state_def example_request_def decode_step_def Let_def
      example_network_def infer_def set_key_values_def empty_request_def set_shape_def
      set_first_def get_size_def fill_n_def read_floats_def BATCH_SIZE_def
      put_def detokenize_def initial_streamer_def piece_decoder_def example_piece_def
      string_view_from_def newline_def replacement_def)

lemma generation_loop_once:
  assumes "loop_body v st = Inr st'" and "out_token st \<noteq> SPECIAL_EOS_TOKEN" and "iter st = 0"
  shows "generation_loop v 1 st = Inr st'"
proof -
  have "iter st' = 1" using loop_body_iter [OF assms(1)] assms(3) by simp
  then have "generation_loop v 1 st' = Inr st'" by (simp add: generation_loop_stop)
  then show ?thesis using assms by (simp add: generation_loop_step)
qed

subsection \<open>The sampler: greedy decoding\<close>

lemma max_from_first_max:
  "first_max pre best \<Longrightarrow> bv = pre ! best \<Longrightarrow> i = length pre \<Longrightarrow>
     first_max (pre @ xs) (max_from best bv i xs)"
proof (induction xs arbitrary: pre best bv i)
  case Nil
  then show ?case by simp
next
  case (Cons x xs)
  have b: "best < length pre" and le: "\<And>j. j < length pre \<Longrightarrow> pre ! j \<le> pre ! best"
    and lt: "\<And>j. j < best \<Longrightarrow> pre ! j < pre ! best"
    using Cons.prems(1) by (auto simp: first_max_def)
  show ?case
  proof (cases "bv < x")
    case True
    have "first_max (pre @ [x]) (length pre)"
      unfolding first_max_def
    proof (intro conjI allI impI)
      show "length pre < length (pre @ [x])" by simp
    next
      fix j assume "j < length (pre @ [x])"
      then show "(pre @ [x]) ! j \<le> (pre @ [x]) ! length pre"
        using le [of j] True Cons.prems(2) by (cases "j < length pre") (auto simp: nth_append)
    next
      fix j assume "j < length pre"
      then show "(pre @ [x]) ! j < (pre @ [x]) ! length pre"
        using le [of j] True Cons.prems(2) by (auto simp: nth_append)
    qed
    from Cons.IH [OF this, of x "Suc i"] True Cons.prems(3)
    show ?thesis by simp
  next
    case False
    have "first_max (pre @ [x]) best"
      unfolding first_max_def
    proof (intro conjI allI impI)
      show "best < length (pre @ [x])" using b by simp
    next
      fix j assume "j < length (pre @ [x])"
      then show "(pre @ [x]) ! j \<le> (pre @ [x]) ! best"
        using le [of j] False Cons.prems(2) b by (cases "j < length pre") (auto simp: nth_append)
    next
      fix j assume "j < best"
      then show "(pre @ [x]) ! j < (pre @ [x]) ! best"
        using lt [of j] b by (auto simp: nth_append)
    qed
    from Cons.IH [OF this, of bv "Suc i"] False Cons.prems(2,3) b
    show ?thesis by (simp add: nth_append)
  qed
qed

lemma max_element_first_max: "xs \<noteq> [] \<Longrightarrow> first_max xs (max_element xs)"
proof (cases xs)
  case Nil
  then show "xs \<noteq> [] \<Longrightarrow> ?thesis" by simp
next
  case (Cons x rest)
  have "first_max [x] 0" by (simp add: first_max_def)
  from max_from_first_max [OF this, of x 1 rest] Cons
  show ?thesis by (simp add: max_element_def)
qed

lemma first_max_unique: "first_max xs a \<Longrightarrow> first_max xs b \<Longrightarrow> a = b"
  unfolding first_max_def by (metis leD linorder_neqE_nat)

lemma length_repetition_penalty [simp]:
  "length (sampling_repetition_penalty lg h n q) = length lg"
proof -
  have "length (fold (\<lambda>t l. if 0 \<le> t \<and> nat t < length l
                  then l[nat t := penalize q (l ! nat t)] else l) ts lg) = length lg" for ts
    by (induction ts arbitrary: lg) auto
  then show ?thesis by (simp add: sampling_repetition_penalty_def)
qed

lemma length_logits_pre_process [simp]: "length (logits_pre_process h lg p) = length lg"
  by (simp add: logits_pre_process_def Let_def)






subsection \<open>The sampler: candidates\<close>

lemma nucleus_pos: "xs \<noteq> [] \<Longrightarrow> 0 < nucleus q acc xs"
  by (cases xs) auto

lemma length_softmax [simp]: "length (softmax xs) = length xs"
  by (simp add: softmax_def)

lemma length_softmax_inplace [simp]: "length (sampling_softmax_inplace xs) = length xs"
  by (simp add: sampling_softmax_inplace_def)

lemma token_id_softmax_inplace:
  "k < length xs \<Longrightarrow> token_id (sampling_softmax_inplace xs ! k) = token_id (xs ! k)"
  by (simp add: sampling_softmax_inplace_def)

lemma length_sampling_temperature [simp]: "length (sampling_temperature lg t) = length lg"
  by (simp add: sampling_temperature_def)

lemma take_nonempty: "xs \<noteq> [] \<Longrightarrow> 0 < n \<Longrightarrow> take n xs \<noteq> []"
  by (cases xs; cases n) auto

lemma top_k_sampling_subset: "set (top_k_sampling xs p) \<subseteq> set xs"
  by (auto simp: top_k_sampling_def sampling_top_k_def dest: in_set_takeD)

lemma top_p_sampling_subset: "set (top_p_sampling xs p) \<subseteq> set xs"
  by (auto simp: top_p_sampling_def sampling_top_p_def Let_def dest: in_set_takeD)

lemma top_k_sampling_nonempty:
  assumes "xs \<noteq> []"
  shows "top_k_sampling xs p \<noteq> []"
proof (cases "0 < top_k p \<and> top_k p < int (length xs)")
  case True
  have "sampling_top_k xs (nat (top_k p)) \<noteq> []"
    using assms unfolding sampling_top_k_def by (metis length_0_conv length_sort)
  then have "take (nat (top_k p)) (sampling_top_k xs (nat (top_k p))) \<noteq> []"
    using True by (intro take_nonempty) simp_all
  with True show ?thesis by (simp add: top_k_sampling_def)
next
  case False
  with assms show ?thesis by (auto simp: top_k_sampling_def)
qed

lemma top_p_sampling_nonempty:
  assumes "xs \<noteq> []"
  shows "top_p_sampling xs p \<noteq> []"
proof (cases "0 < top_p p \<and> top_p p < 1")
  case True
  let ?ys = "sort_key (\<lambda>t. - score t) xs"
  have ys: "?ys \<noteq> []" using assms by (metis length_0_conv length_sort)
  then have "softmax (map score ?ys) \<noteq> []"
    by (metis length_0_conv length_map length_softmax)
  then have "0 < nucleus (top_p p) 0 (softmax (map score ?ys))"
    by (rule nucleus_pos)
  with ys have "take (nucleus (top_p p) 0 (softmax (map score ?ys))) ?ys \<noteq> []"
    by (rule take_nonempty)
  with True show ?thesis
    by (simp add: top_p_sampling_def sampling_top_p_def Let_def)
next
  case False
  with assms show ?thesis by (auto simp: top_p_sampling_def)
qed

lemma token_scores_of_subset:
  "set (token_scores_of lg p)
     \<subseteq> set (map (\<lambda>i. \<lparr>token_id = int i, score = lg ! i\<rparr>) [0 ..< length lg])"
  unfolding token_scores_of_def
  using top_p_sampling_subset top_k_sampling_subset by (rule subset_trans)

lemma token_scores_of_nonempty:
  assumes "lg \<noteq> []"
  shows "token_scores_of lg p \<noteq> []"
proof -
  have "map (\<lambda>i. \<lparr>token_id = int i, score = lg ! i\<rparr>) [0 ..< length lg] \<noteq> []"
    using assms by simp
  then show ?thesis
    unfolding token_scores_of_def
    by (intro top_p_sampling_nonempty top_k_sampling_nonempty)
qed

lemma token_scores_of_ids:
  assumes "k < length (token_scores_of lg p)"
  shows "0 \<le> token_id (token_scores_of lg p ! k) \<and> token_id (token_scores_of lg p ! k) < int (length lg)"
proof -
  have "token_scores_of lg p ! k \<in> set (token_scores_of lg p)"
    using assms by simp
  with token_scores_of_subset [of lg p] show ?thesis by auto
qed

text \<open>
  C4. With \<open>do_sample\<close> on and a non-empty vocabulary inside the buffer, the candidates
  left by top-k and top-p are never empty, and, the random draw being an index into the
  weights it is given, \<open>get_out_token_id\<close> returns a token id from 0 up to, not
  including, \<open>vocab_size\<close>.
\<close>

theorem sampled_token_in_vocabulary:
  "do_sample p \<and> 0 < vocab_size \<and> vocab_size \<le> length buf \<and> draws_in_range R \<longrightarrow>
     (\<forall>lg. lg \<noteq> [] \<longrightarrow> token_scores_of lg p \<noteq> [])
     \<and> (\<exists>tok buf' g. get_out_token_id R rng h buf vocab_size p = Inr (tok, buf', Some g)
           \<and> 0 \<le> tok \<and> tok < int vocab_size)"
proof (intro impI conjI allI)
  fix lg :: "real list"
  assume "lg \<noteq> []"
  then show "token_scores_of lg p \<noteq> []" by (rule token_scores_of_nonempty)
next
  assume a: "do_sample p \<and> 0 < vocab_size \<and> vocab_size \<le> length buf \<and> draws_in_range R"
  let ?lg1 = "logits_pre_process h (take vocab_size buf) p"
  let ?lg2 = "if 0 < temperature p then sampling_temperature ?lg1 (temperature p) else ?lg1"
  let ?cs = "token_scores_of ?lg2 p"
  let ?ts = "sampling_softmax_inplace ?cs"
  let ?lg3 = "map score ?ts @ drop (length ?ts) ?lg2"
  let ?g = "case rng of None \<Rightarrow> mt19937 R (seed p) | Some g0 \<Rightarrow> g0"
  have len: "length ?lg2 = vocab_size" using a by simp
  then have "?lg2 \<noteq> []" using a by (metis length_0_conv less_numeral_extra(3))
  then have cs: "?cs \<noteq> []" by (rule token_scores_of_nonempty)
  have w: "take (length ?ts) ?lg3 = map score ?ts" by simp
  obtain k g1 where d: "discrete_distribution R (map score ?ts) ?g = (k, g1)"
    by (cases "discrete_distribution R (map score ?ts) ?g")
  have "map score ?ts \<noteq> []"
    using cs by (metis length_0_conv length_map length_softmax_inplace)
  with a d have k: "k < length ?cs"
    unfolding draws_in_range_def by (metis fst_conv length_map length_softmax_inplace)
  have r: "get_out_token_id R rng h buf vocab_size p
      = Inr (token_id (?ts ! k), ?lg3 @ drop vocab_size buf, Some g1)"
    using a d k unfolding get_out_token_id_def Let_def w by simp
  have "0 \<le> token_id (?ts ! k) \<and> token_id (?ts ! k) < int vocab_size"
    using token_scores_of_ids [OF k] token_id_softmax_inplace [OF k] len by simp
  with r show "\<exists>tok buf' g. get_out_token_id R rng h buf vocab_size p = Inr (tok, buf', Some g)
           \<and> 0 \<le> tok \<and> tok < int vocab_size"
    by blast
qed

lemma example_random_in_range: "draws_in_range example_random"
  by (simp add: draws_in_range_def example_random_def)

theorem sampled_token_in_vocabulary_witness:
  "do_sample (example_params\<lparr>do_sample := True\<rparr>) \<and> (0 :: nat) < 2 \<and> 2 \<le> length [2, 3 / 2 :: real]
   \<and> draws_in_range example_random
   \<and> [2, 3 / 2] \<noteq> ([] :: real list)
   \<and> token_scores_of [2, 3 / 2] (example_params\<lparr>do_sample := True\<rparr>) \<noteq> []
   \<and> (\<exists>tok buf' g. get_out_token_id example_random None [0] [2, 3 / 2] 2
                      (example_params\<lparr>do_sample := True\<rparr>) = Inr (tok, buf', Some g)
         \<and> 0 \<le> tok \<and> tok < 2)"
  using sampled_token_in_vocabulary [of "example_params\<lparr>do_sample := True\<rparr>" 2 "[2, 3 / 2]"
      example_random None "[0]"] example_random_in_range
  by (simp add: example_params_def)


subsection \<open>The speculative loop: the greedy choice\<close>

lemma read_floats_greedy:
  assumes "read_floats t off n = Inr lg" and "0 < n"
  shows "greedy_choice t off n (int (max_element lg))"
proof -
  from assms(1) have le: "off + n \<le> length (data t)" and lg: "lg = take n (drop off (data t))"
    by (auto simp: read_floats_def split: if_splits)
  from le lg assms(2) have "lg \<noteq> []" by auto
  then have "first_max lg (max_element lg)" by (rule max_element_first_max)
  with le lg show ?thesis by (simp add: greedy_choice_def logits_window_def)
qed

lemma infer_inferred: "inferred (compiled_model r) (infer r)"
  by (simp add: inferred_def infer_def split: prod.splits)

lemma decode_step_inferred:
  "decode_step r token n = Inr r' \<Longrightarrow> inferred (compiled_model r) r'"
proof -
  assume "decode_step r token n = Inr r'"
  then obtain r3 where "r' = infer (set_key_values r3 n)" and "compiled_model r3 = compiled_model r"
    by (auto simp: decode_step_def Let_def split: if_splits)
  then show ?thesis
    using infer_inferred [of "set_key_values r3 n"] by (simp add: set_key_values_def)
qed

lemma draft_request_inferred:
  "inferred (draft_network env) (draft_request env input_ids attention_mask)"
proof -
  obtain r where "draft_request env input_ids attention_mask = infer r"
    and "compiled_model r = draft_network env"
    by (simp add: draft_request_def Let_def init_key_values_def empty_request_def)
  then show ?thesis using infer_inferred [of r] by simp
qed

lemma target_request_inferred:
  "inferred (target_network env) (target_request env input_ids)"
proof -
  obtain r where "target_request env input_ids = infer r"
    and "compiled_model r = target_network env"
    by (simp add: target_request_def Let_def init_key_values_def empty_request_def)
  then show ?thesis using infer_inferred [of r] by simp
qed

lemma single_token_shape_fields:
  "compiled_model (single_token_shape r) = compiled_model r"
  "get_size (t_input_ids (single_token_shape r)) = 1"
  by (simp_all add: single_token_shape_def Let_def set_shape_def get_size_def BATCH_SIZE_def)

lemma prefill_Inr:
  assumes "prefill env prompt = Inr (v, st0)"
    and "tokenizer env prompt = (input_ids, attention_mask)"
  shows "\<exists>lg lgt.
      v = last (shape (t_logits (draft_request env input_ids attention_mask)))
    \<and> 0 < get_size input_ids
    \<and> read_floats (t_logits (draft_request env input_ids attention_mask))
        ((get_size input_ids - 1) * v) v = Inr lg
    \<and> read_floats (t_logits (target_request env input_ids)) 0 v = Inr lgt
    \<and> st0 = \<lparr>lm = single_token_shape (draft_request env input_ids attention_mask),
             lm_target = single_token_shape (target_request env input_ids),
             out_token = int (max_element lg),
             target_out_token = int (max_element lgt),
             text_streamer = initial_streamer (detokenizer_model env),
             iter = 0, cout = []\<rparr>"
  using assms
  by (auto simp: prefill_def Let_def single_token_shape_fields split: if_splits sum.splits)


lemma loop_body_fields:
  assumes "loop_body v st = Inr st'"
  shows "\<exists>chunk. put (text_streamer st) (out_token st) = Inr (chunk, text_streamer st')
                  \<and> cout st' = cout st @ chunk"
    and "decode_step (lm st) (out_token st) tiny_llama_kv_size = Inr (lm st')"
    and "decode_step (lm_target st) (target_out_token st) llama_kv_size = Inr (lm_target st')"
    and "target_out_token st' = target_out_token st"
    and "iter st' = iter st + 1"
    and "0 < v \<Longrightarrow> greedy_choice (t_logits (lm st')) 0 v (out_token st')"
proof -
  from loop_body_Inr [OF assms] obtain d t chunk ts lg where
    d: "decode_step (lm st) (out_token st) tiny_llama_kv_size = Inr d"
    and t: "decode_step (lm_target st) (target_out_token st) llama_kv_size = Inr t"
    and p: "put (text_streamer st) (out_token st) = Inr (chunk, ts)"
    and r: "read_floats (t_logits d) 0 v = Inr lg"
    and s: "st' = st\<lparr>lm := d, lm_target := t, out_token := int (max_element lg),
                 text_streamer := ts, iter := iter st + 1, cout := cout st @ chunk\<rparr>"
    by blast
  show "\<exists>chunk. put (text_streamer st) (out_token st) = Inr (chunk, text_streamer st')
                  \<and> cout st' = cout st @ chunk"
    using p s by simp
  show "decode_step (lm st) (out_token st) tiny_llama_kv_size = Inr (lm st')"
    using d s by simp
  show "decode_step (lm_target st) (target_out_token st) llama_kv_size = Inr (lm_target st')"
    using t s by simp
  show "target_out_token st' = target_out_token st"
    using s by simp
  show "iter st' = iter st + 1"
    using s by simp
  show "greedy_choice (t_logits (lm st')) 0 v (out_token st')" if "0 < v"
    using read_floats_greedy [OF r that] s by simp
qed

lemma iterations_invariant:
  assumes "prefill env prompt = Inr (v, st0)"
    and "tokenizer env prompt = (input_ids, attention_mask)"
    and "0 < v"
  shows "iterations v k st0 = Inr st \<Longrightarrow>
      compiled_model (lm st) = draft_network env
    \<and> compiled_model (lm_target st) = target_network env
    \<and> target_out_token st = target_out_token st0
    \<and> iter st = int k
    \<and> greedy_choice (t_logits (lm st)) (if k = 0 then (get_size input_ids - 1) * v else 0) v
        (out_token st)"
proof (induction k arbitrary: st)
  case 0
  then have st: "st = st0" by simp
  from prefill_Inr [OF assms(1,2)] obtain lg lgt where
    r: "read_floats (t_logits (draft_request env input_ids attention_mask))
          ((get_size input_ids - 1) * v) v = Inr lg"
    and s: "st0 = \<lparr>lm = single_token_shape (draft_request env input_ids attention_mask),
             lm_target = single_token_shape (target_request env input_ids),
             out_token = int (max_element lg),
             target_out_token = int (max_element lgt),
             text_streamer = initial_streamer (detokenizer_model env),
             iter = 0, cout = []\<rparr>"
    by blast
  have "compiled_model (lm st0) = draft_network env"
    using draft_request_inferred [of env input_ids attention_mask]
    by (subst s) (simp add: single_token_shape_fields inferred_def)
  moreover have "compiled_model (lm_target st0) = target_network env"
    using target_request_inferred [of env input_ids]
    by (subst s) (simp add: single_token_shape_fields inferred_def)
  moreover have "iter st0 = 0" by (subst s) simp
  moreover have "greedy_choice (t_logits (lm st0)) ((get_size input_ids - 1) * v) v (out_token st0)"
    using read_floats_greedy [OF r assms(3)]
    by (subst s, subst s) (simp add: single_token_shape_logits)
  ultimately show ?case unfolding st by simp
next
  case (Suc k)
  from Suc.prems obtain mid where m: "iterations v k st0 = Inr mid"
    and b: "loop_body v mid = Inr st"
    by (auto split: sum.splits)
  from Suc.IH [OF m] have
    i: "compiled_model (lm mid) = draft_network env"
      "compiled_model (lm_target mid) = target_network env"
      "target_out_token mid = target_out_token st0"
      "iter mid = int k"
    by blast+
  have "compiled_model (lm st) = draft_network env"
    using decode_step_inferred [OF loop_body_fields(2) [OF b]] i(1) by (simp add: inferred_def)
  moreover have "compiled_model (lm_target st) = target_network env"
    using decode_step_inferred [OF loop_body_fields(3) [OF b]] i(2) by (simp add: inferred_def)
  moreover have "target_out_token st = target_out_token st0"
    using loop_body_fields(4) [OF b] i(3) by simp
  moreover have "iter st = int (Suc k)"
    using loop_body_fields(5) [OF b] i(4) by simp
  moreover have "greedy_choice (t_logits (lm st)) 0 v (out_token st)"
    using loop_body_fields(6) [OF b assms(3)] .
  ultimately show ?case by simp
qed

lemma iterations_first:
  "loop_body v st = Inr s \<Longrightarrow> iterations v (Suc k) st = iterations v k s"
  by (induction k) (simp_all split: sum.splits)

lemma generation_loop_iterations:
  "generation_loop v m st = Inr s1 \<Longrightarrow> \<exists>k. iterations v k st = Inr s1"
proof (induction v m st rule: generation_loop.induct)
  case (1 v m st)
  show ?case
  proof (cases "out_token st \<noteq> SPECIAL_EOS_TOKEN \<and> iter st < m")
    case False
    with "1.prems" have "s1 = st" by (simp add: generation_loop_stop)
    then have "iterations v 0 st = Inr s1" by simp
    then show ?thesis ..
  next
    case True
    with "1.prems" obtain s where b: "loop_body v st = Inr s"
      and r: "generation_loop v m s = Inr s1"
      by (auto simp: generation_loop_step split: sum.splits)
    from "1.IH" [OF True b r] obtain k where "iterations v k s = Inr s1" ..
    with iterations_first [OF b, of k] have "iterations v (Suc k) st = Inr s1" by simp
    then show ?thesis ..
  qed
qed


lemma loop_body_example:
  assumes "compiled_model (lm st) = example_network lg"
    and "compiled_model (lm_target st) = example_network lgt"
    and "2 \<le> length (shape (t_attention_mask (lm st)))"
    and "2 \<le> length (shape (t_attention_mask (lm_target st)))"
    and "length (data (t_input_ids (lm st))) = 1"
    and "length lg = v"
    and "put (text_streamer st) (out_token st) = Inr (chunk, ts)"
  shows "\<exists>st'. loop_body v st = Inr st'
      \<and> compiled_model (lm st') = example_network lg
      \<and> compiled_model (lm_target st') = example_network lgt
      \<and> 2 \<le> length (shape (t_attention_mask (lm st')))
      \<and> 2 \<le> length (shape (t_attention_mask (lm_target st')))
      \<and> length (data (t_input_ids (lm st'))) = 1
      \<and> text_streamer st' = ts
      \<and> out_token st' = int (max_element lg)"
  using assms
  by (simp add: loop_body_def decode_step_def Let_def infer_def example_network_def
      set_key_values_def set_first_def set_shape_def fill_n_def read_floats_def get_size_def)

lemma example_prefill_ready:
  "\<exists>st0. prefill example_env [] = Inr (3, st0)
      \<and> compiled_model (lm st0) = example_network [0, 1, 0]
      \<and> compiled_model (lm_target st0) = example_network [0, 0, 1]
      \<and> 2 \<le> length (shape (t_attention_mask (lm st0)))
      \<and> 2 \<le> length (shape (t_attention_mask (lm_target st0)))
      \<and> length (data (t_input_ids (lm st0))) = 1
      \<and> text_streamer st0 = initial_streamer (piece_decoder example_piece)
      \<and> out_token st0 = 1 \<and> target_out_token st0 = 2"
  by (simp add: prefill_def example_env_def draft_request_def target_request_def Let_def
      example_network_def infer_def init_key_values_def empty_request_def set_shape_def
      iota_def get_size_def fill_n_def read_floats_def single_token_shape_def BATCH_SIZE_def
      max_element_def)

lemma example_put:
  "put (initial_streamer (piece_decoder example_piece)) 1
     = Inr (''x'' @ [newline], initial_streamer (piece_decoder example_piece))"
  by (simp add: put_def detokenize_def initial_streamer_def piece_decoder_def example_piece_def
      string_view_from_def newline_def replacement_def Let_def)

lemma example_run:
  "\<exists>st0 st st'. prefill example_env [] = Inr (3, st0) \<and> iterations 3 1 st0 = Inr st
      \<and> loop_body 3 st = Inr st' \<and> out_token st0 = 1 \<and> target_out_token st0 = 2
      \<and> out_token st = 1 \<and> out_token st' = 1"
proof -
  let ?ts = "initial_streamer (piece_decoder example_piece)"
  from example_prefill_ready obtain st0 where
    p: "prefill example_env [] = Inr (3, st0)"
    and r0: "compiled_model (lm st0) = example_network [0, 1, 0]"
      "compiled_model (lm_target st0) = example_network [0, 0, 1]"
      "2 \<le> length (shape (t_attention_mask (lm st0)))"
      "2 \<le> length (shape (t_attention_mask (lm_target st0)))"
      "length (data (t_input_ids (lm st0))) = 1"
    and t0: "text_streamer st0 = ?ts"
    and o0: "out_token st0 = 1" "target_out_token st0 = 2"
    by blast
  have l: "length [0, 1, 0 :: real] = 3" by simp
  have p0: "put (text_streamer st0) (out_token st0) = Inr (''x'' @ [newline], ?ts)"
    unfolding t0 o0 by (rule example_put)
  from loop_body_example [OF r0 l p0] obtain st where
    b: "loop_body 3 st0 = Inr st"
    and r1: "compiled_model (lm st) = example_network [0, 1, 0]"
      "compiled_model (lm_target st) = example_network [0, 0, 1]"
      "2 \<le> length (shape (t_attention_mask (lm st)))"
      "2 \<le> length (shape (t_attention_mask (lm_target st)))"
      "length (data (t_input_ids (lm st))) = 1"
    and t1: "text_streamer st = ?ts"
    and o1: "out_token st = int (max_element [0, 1, 0])"
    by blast
  have m: "int (max_element [0, 1, 0]) = 1" by (simp add: max_element_def)
  have p1: "put (text_streamer st) (out_token st) = Inr (''x'' @ [newline], ?ts)"
    unfolding t1 o1 m by (rule example_put)
  from loop_body_example [OF r1 l p1] obtain st' where
    b': "loop_body 3 st = Inr st'"
    and o2: "out_token st' = int (max_element [0, 1, 0])"
    by blast
  have "iterations 3 1 st0 = Inr st" using b by simp
  with p b' o0 o1 o2 m show ?thesis by auto
qed



subsection \<open>The streamed api_Generate\<close>

lemma stream_loop_exit:
  "\<not> continuing p input_ids g \<Longrightarrow> stream_loop R cb p input_ids g = Inr g"
  by (subst stream_loop.simps) (auto simp: continuing_def)

lemma stream_loop_stop:
  "continuing p input_ids g \<Longrightarrow> m_stop_generation (api g) \<Longrightarrow>
     stream_loop R cb p input_ids g = Inr (api_callback cb g)"
  by (subst stream_loop.simps) (auto simp: continuing_def)

lemma stream_loop_next:
  "continuing p input_ids g \<Longrightarrow> \<not> m_stop_generation (api g) \<Longrightarrow>
     stream_loop R cb p input_ids g =
       (case generate_next_token R (api g) (generator g) (output_token g) (history_ids g) p of
          Inl e \<Rightarrow> Inl e
        | Inr (tok, a, rng1) \<Rightarrow>
            stream_loop R cb p input_ids
              ((api_callback cb
                  (g\<lparr>api := a\<lparr>m_new_token_id := tok\<rparr>, generator := rng1, output_token := tok\<rparr>))
               \<lparr>history_ids := history_ids g @ [tok]\<rparr>))"
  by (subst stream_loop.simps) (auto simp: continuing_def)

lemma api_callback_fields:
  "calls (api_callback cb g) = calls g @ [(m_new_token_id (api g), m_stop_generation (api g))]"
  "history_ids (api_callback cb g) = history_ids g"
  "output_token (api_callback cb g) = output_token g"
  "generator (api_callback cb g) = generator g"
  "output_ids (api_callback cb g) = output_ids g"
  "m_tokenizer_config (api (api_callback cb g)) = m_tokenizer_config (api g)"
  "m_perf_statistic (api (api_callback cb g)) = m_perf_statistic (api g)"
  "m_infer_request (api (api_callback cb g)) = m_infer_request (api g)"
  "m_api_status (api (api_callback cb g)) = m_api_status (api g)"
  "m_tokenizer (api (api_callback cb g)) = m_tokenizer (api g)"
  by (simp_all add: api_callback_def split: prod.splits)

lemma continuing_api_callback [simp]:
  "continuing p input_ids (api_callback cb g) = continuing p input_ids g"
  by (simp add: continuing_def api_callback_fields)

lemma stream_loop_calls:
  "stream_loop R cb p input_ids g = Inr g' \<Longrightarrow>
     \<exists>toks extra. history_ids g' = history_ids g @ toks
       \<and> map fst (calls g') = map fst (calls g) @ toks @ extra
       \<and> (continuing p input_ids g' \<longrightarrow> length extra = 1 \<and> snd (last (calls g')))
       \<and> (\<not> continuing p input_ids g' \<longrightarrow> extra = [])"
proof (induction R cb p input_ids g rule: stream_loop.induct)
  case (1 R cb p input_ids g)
  consider (exit) "\<not> continuing p input_ids g"
    | (stop) "continuing p input_ids g" and "m_stop_generation (api g)"
    | (more) "continuing p input_ids g" and "\<not> m_stop_generation (api g)"
    by blast
  then show ?case
  proof cases
    case exit
    with "1.prems" have "g' = g" by (simp add: stream_loop_exit)
    with exit show ?thesis by simp
  next
    case stop
    with "1.prems" have g': "g' = api_callback cb g" by (simp add: stream_loop_stop)
    show ?thesis
      using stop unfolding g'
      by (intro exI [of _ "[]"] exI [of _ "[m_new_token_id (api g)]"])
         (simp add: api_callback_fields)
  next
    case more
    let ?g1 = "\<lambda>tok a rng1. (api_callback cb
                  (g\<lparr>api := a\<lparr>m_new_token_id := tok\<rparr>, generator := rng1, output_token := tok\<rparr>))
               \<lparr>history_ids := history_ids g @ [tok]\<rparr>"
    from more "1.prems" obtain tok a rng1 where
      n: "generate_next_token R (api g) (generator g) (output_token g) (history_ids g) p
            = Inr (tok, a, rng1)"
      and r: "stream_loop R cb p input_ids (?g1 tok a rng1) = Inr g'"
      by (auto simp: stream_loop_next split: sum.splits)
    have c: "output_token g \<noteq> eos_token_id (m_tokenizer_config (api g))
         \<and> output_token g \<noteq> im_end_id (m_tokenizer_config (api g))
         \<and> to_size_t (int (length (history_ids g)) - int (length input_ids))
             < to_size_t (n_predict p)"
      using more(1) by (simp add: continuing_def)
    from "1.IH" [OF c more(2) n refl refl r] obtain toks extra where
      h: "history_ids g' = history_ids (?g1 tok a rng1) @ toks"
      and k: "map fst (calls g') = map fst (calls (?g1 tok a rng1)) @ toks @ extra"
      and e1: "continuing p input_ids g' \<longrightarrow> length extra = 1 \<and> snd (last (calls g'))"
      and e2: "\<not> continuing p input_ids g' \<longrightarrow> extra = []"
      by blast
    have "history_ids g' = history_ids g @ (tok # toks)"
      using h by simp
    moreover have "map fst (calls g') = map fst (calls g) @ (tok # toks) @ extra"
      using k by (simp add: api_callback_fields)
    ultimately show ?thesis using e1 e2 by blast
  qed
qed

lemma same_load_statistics_refl [simp]: "same_load_statistics s s"
  by (simp add: same_load_statistics_def)

lemma generate_first_token_Inr:
  assumes "generate_first_token R a rng input_ids p = Inr (tok, a', rng')"
  shows "same_load_statistics (m_perf_statistic a') (m_perf_statistic a)"
    and "input_token_num (m_perf_statistic a') = input_token_num (m_perf_statistic a)"
    and "m_tokenizer_config a' = m_tokenizer_config a"
    and "m_tokenizer a' = m_tokenizer a"
    and "m_stop_generation a' = m_stop_generation a"
    and "m_new_token_id a' = m_new_token_id a"
  using assms
  by (auto simp: generate_first_token_def Let_def same_load_statistics_def
      split: option.splits prod.splits sum.splits)

lemma generate_next_token_Inr:
  assumes "generate_next_token R a rng t h p = Inr (tok, a', rng')"
  shows "same_load_statistics (m_perf_statistic a') (m_perf_statistic a)"
    and "input_token_num (m_perf_statistic a') = input_token_num (m_perf_statistic a)"
    and "m_tokenizer_config a' = m_tokenizer_config a"
    and "m_tokenizer a' = m_tokenizer a"
    and "m_stop_generation a' = m_stop_generation a"
    and "m_new_token_id a' = m_new_token_id a"
  using assms
  by (auto simp: generate_next_token_def Let_def same_load_statistics_def
      split: option.splits prod.splits sum.splits if_splits)

lemma same_load_statistics_trans:
  "same_load_statistics s t \<Longrightarrow> same_load_statistics t u \<Longrightarrow> same_load_statistics s u"
  by (simp add: same_load_statistics_def)

lemma stream_loop_statistics:
  "stream_loop R cb p input_ids g = Inr g' \<Longrightarrow>
     same_load_statistics (m_perf_statistic (api g')) (m_perf_statistic (api g))"
proof (induction R cb p input_ids g rule: stream_loop.induct)
  case (1 R cb p input_ids g)
  consider (exit) "\<not> continuing p input_ids g"
    | (stop) "continuing p input_ids g" and "m_stop_generation (api g)"
    | (more) "continuing p input_ids g" and "\<not> m_stop_generation (api g)"
    by blast
  then show ?case
  proof cases
    case exit
    with "1.prems" show ?thesis by (simp add: stream_loop_exit)
  next
    case stop
    with "1.prems" show ?thesis by (auto simp: stream_loop_stop api_callback_fields)
  next
    case more
    let ?g1 = "\<lambda>tok a rng1. (api_callback cb
                  (g\<lparr>api := a\<lparr>m_new_token_id := tok\<rparr>, generator := rng1, output_token := tok\<rparr>))
               \<lparr>history_ids := history_ids g @ [tok]\<rparr>"
    from more "1.prems" obtain tok a rng1 where
      n: "generate_next_token R (api g) (generator g) (output_token g) (history_ids g) p
            = Inr (tok, a, rng1)"
      and r: "stream_loop R cb p input_ids (?g1 tok a rng1) = Inr g'"
      by (auto simp: stream_loop_next split: sum.splits)
    have c: "output_token g \<noteq> eos_token_id (m_tokenizer_config (api g))
         \<and> output_token g \<noteq> im_end_id (m_tokenizer_config (api g))
         \<and> to_size_t (int (length (history_ids g)) - int (length input_ids))
             < to_size_t (n_predict p)"
      using more(1) by (simp add: continuing_def)
    from "1.IH" [OF c more(2) n refl refl r]
    have "same_load_statistics (m_perf_statistic (api g')) (m_perf_statistic (api (?g1 tok a rng1)))" .
    moreover have "m_perf_statistic (api (?g1 tok a rng1)) = m_perf_statistic a"
      by (simp add: api_callback_fields)
    ultimately show ?thesis
      using generate_next_token_Inr(1) [OF n] by (auto intro: same_load_statistics_trans)
  qed
qed

lemma replay_fst: "replay cb c t b toks = (past, r) \<Longrightarrow> map fst past = toks"
  by (induction toks arbitrary: c t b past r) (auto split: prod.splits)

lemma replay_keeps_id:
  "keeps_id cb \<Longrightarrow> toks \<noteq> [] \<Longrightarrow> replay cb c t b toks = (past, c', t', b') \<Longrightarrow> t' = last toks"
proof (induction toks arbitrary: c t b past)
  case Nil
  then show ?case by simp
next
  case (Cons tok toks)
  obtain c1 t1 b1 where cb: "cb c tok b = (c1, t1, b1)" by (cases "cb c tok b")
  from Cons.prems(1) have "fst (snd (cb c tok b)) = tok" unfolding keeps_id_def by blast
  with cb have t1: "t1 = tok" by simp
  show ?case
  proof (cases toks)
    case Nil
    with Cons.prems(3) cb t1 show ?thesis by simp
  next
    case (Cons a list)
    from Cons.prems(3) cb obtain past1 where
      "replay cb c1 t1 b1 toks = (past1, c', t', b')"
      by (auto split: prod.splits)
    from Cons.IH [OF Cons.prems(1) _ this] Cons show ?thesis by simp
  qed
qed

lemma api_callback_result:
  assumes "cb (callback_state g) (m_new_token_id (api g)) (m_stop_generation (api g)) = (c, t, b)"
  shows "callback_state (api_callback cb g) = c"
    and "m_new_token_id (api (api_callback cb g)) = t"
    and "m_stop_generation (api (api_callback cb g)) = b"
  using assms by (simp_all add: api_callback_def)


lemma stream_loop_replay:
  "stream_loop R cb p input_ids g = Inr g' \<Longrightarrow>
     \<exists>toks past c t b.
         history_ids g' = history_ids g @ toks
       \<and> replay cb (callback_state g) (m_new_token_id (api g)) (m_stop_generation (api g)) toks
           = (past, c, t, b)
       \<and> calls g' = calls g @ past @ (if continuing p input_ids g' then [(t, b)] else [])
       \<and> (continuing p input_ids g' \<longrightarrow> b)"
proof (induction R cb p input_ids g rule: stream_loop.induct)
  case (1 R cb p input_ids g)
  consider (exit) "\<not> continuing p input_ids g"
    | (stop) "continuing p input_ids g" and "m_stop_generation (api g)"
    | (more) "continuing p input_ids g" and "\<not> m_stop_generation (api g)"
    by blast
  then show ?case
  proof cases
    case exit
    with "1.prems" have "g' = g" by (simp add: stream_loop_exit)
    with exit show ?thesis by simp
  next
    case stop
    with "1.prems" have g': "g' = api_callback cb g" by (simp add: stream_loop_stop)
    show ?thesis
      using stop unfolding g' by (auto simp: api_callback_fields)
  next
    case more
    let ?g0 = "\<lambda>tok a rng1.
                 g\<lparr>api := a\<lparr>m_new_token_id := tok\<rparr>, generator := rng1, output_token := tok\<rparr>"
    let ?g1 = "\<lambda>tok a rng1. (api_callback cb (?g0 tok a rng1))
               \<lparr>history_ids := history_ids g @ [tok]\<rparr>"
    from more "1.prems" obtain tok a rng1 where
      n: "generate_next_token R (api g) (generator g) (output_token g) (history_ids g) p
            = Inr (tok, a, rng1)"
      and r: "stream_loop R cb p input_ids (?g1 tok a rng1) = Inr g'"
      by (auto simp: stream_loop_next split: sum.splits)
    have c: "output_token g \<noteq> eos_token_id (m_tokenizer_config (api g))
         \<and> output_token g \<noteq> im_end_id (m_tokenizer_config (api g))
         \<and> to_size_t (int (length (history_ids g)) - int (length input_ids))
             < to_size_t (n_predict p)"
      using more(1) by (simp add: continuing_def)
    have flag: "m_stop_generation a = m_stop_generation (api g)"
      using generate_next_token_Inr(5) [OF n] .
    obtain c1 t1 b1 where
      cb: "cb (callback_state g) tok (m_stop_generation (api g)) = (c1, t1, b1)"
      by (cases "cb (callback_state g) tok (m_stop_generation (api g))")
    have cb': "cb (callback_state (?g0 tok a rng1)) (m_new_token_id (api (?g0 tok a rng1)))
                 (m_stop_generation (api (?g0 tok a rng1))) = (c1, t1, b1)"
      using cb flag by simp
    have s1: "callback_state (?g1 tok a rng1) = c1"
      and s2: "m_new_token_id (api (?g1 tok a rng1)) = t1"
      and s3: "m_stop_generation (api (?g1 tok a rng1)) = b1"
      using api_callback_result [of cb "?g0 tok a rng1" c1 t1 b1, OF cb'] by simp_all
    from "1.IH" [OF c more(2) n refl refl r] obtain toks past c' t b where
      h: "history_ids g' = history_ids (?g1 tok a rng1) @ toks"
      and rp: "replay cb c1 t1 b1 toks = (past, c', t, b)"
      and k: "calls g' = calls (?g1 tok a rng1) @ past
                @ (if continuing p input_ids g' then [(t, b)] else [])"
      and e: "continuing p input_ids g' \<longrightarrow> b"
      unfolding s1 s2 s3 by blast
    have "history_ids g' = history_ids g @ (tok # toks)"
      using h by simp
    moreover have "replay cb (callback_state g) (m_new_token_id (api g))
                     (m_stop_generation (api g)) (tok # toks)
                   = ((tok, m_stop_generation (api g)) # past, c', t, b)"
      using cb rp by simp
    moreover have "calls g' = calls g @ ((tok, m_stop_generation (api g)) # past)
                @ (if continuing p input_ids g' then [(t, b)] else [])"
      using k flag by (simp add: api_callback_fields)
    ultimately show ?thesis using e by blast
  qed
qed

lemma api_Generate_stream_Inr:
  assumes "api_Generate_stream R cb prompt p g0 = Inr g1"
  shows "\<exists>tk tok a2 rng1 r g4.
      m_tokenizer (api g0) = Some tk
    \<and> generate_first_token R
          ((api g0)\<lparr>m_api_status := inference,
                    m_perf_statistic := (m_perf_statistic (api g0))
                      \<lparr>input_token_num := int (length (encode tk prompt (n_ctx p)))\<rparr>\<rparr>)
          (generator g0) (encode tk prompt (n_ctx p)) p = Inr (tok, a2, rng1)
    \<and> m_infer_request a2 = Some r
    \<and> stream_loop R cb p (encode tk prompt (n_ctx p))
         ((api_callback cb
            (g0\<lparr>api := a2\<lparr>m_new_token_id := tok\<rparr>, generator := rng1,
                output_token := tok, history_ids := encode tk prompt (n_ctx p)\<rparr>))
          \<lparr>history_ids := encode tk prompt (n_ctx p) @ [tok],
           api := (api (api_callback cb
                    (g0\<lparr>api := a2\<lparr>m_new_token_id := tok\<rparr>, generator := rng1,
                        output_token := tok, history_ids := encode tk prompt (n_ctx p)\<rparr>)))
                  \<lparr>m_infer_request := Some
                     (r\<lparr>q_input_ids := set_shape (q_input_ids r) [BATCH_SIZE, 1],
                        q_position_ids := set_shape (q_position_ids r) [BATCH_SIZE, 1]\<rparr>)\<rparr>\<rparr>)
        = Inr g4
    \<and> g1 = g4\<lparr>api := (api g4)
               \<lparr>m_perf_statistic :=
                  finish_statistic (m_perf_statistic (api g4))
                    (int (length (history_ids g4)) - int (length (encode tk prompt (n_ctx p)))),
                m_api_status := loaded\<rparr>\<rparr>"
  using assms
  by (simp add: api_Generate_stream_def Let_def api_callback_fields
      split: option.splits sum.splits prod.splits)


text \<open>
  C3 (as amended). When the streamed \<open>api_Generate\<close> returns, the history is the
  encoded prompt followed by the produced tokens, at least one. The calls made to the
  callback are first those of \<open>replay\<close>: one call for each produced token, in order, given
  that token's id and the stop flag as the call before left it (the first call finds the
  flag as the member was). They are followed by one more call if and only if the loop was
  left through the stop flag (the loop condition still holds at the end): that call is
  given the value the last call left in \<open>_new_token_id\<close> and the set flag. For a
  callback that never writes the id, the value is the id of the last produced token.
\<close>

theorem stream_callback_calls:
  "api_Generate_stream R cb prompt p g0 = Inr g1 \<longrightarrow>
     (\<exists>tk toks past c t b.
        m_tokenizer (api g0) = Some tk
      \<and> history_ids g1 = encode tk prompt (n_ctx p) @ toks \<and> toks \<noteq> []
      \<and> replay cb (callback_state g0) (m_new_token_id (api g0)) (m_stop_generation (api g0)) toks
          = (past, c, t, b)
      \<and> map fst past = toks
      \<and> calls g1 = calls g0 @ past
           @ (if continuing p (encode tk prompt (n_ctx p)) g1 then [(t, b)] else [])
      \<and> (continuing p (encode tk prompt (n_ctx p)) g1 \<longrightarrow> b)
      \<and> (keeps_id cb \<longrightarrow> t = last toks))"
proof
  assume a: "api_Generate_stream R cb prompt p g0 = Inr g1"
  from api_Generate_stream_Inr [OF a] obtain tk tok a2 rng1 r g4 g2 g3 where
    tk: "m_tokenizer (api g0) = Some tk"
    and f: "generate_first_token R
          ((api g0)\<lparr>m_api_status := inference,
                    m_perf_statistic := (m_perf_statistic (api g0))
                      \<lparr>input_token_num := int (length (encode tk prompt (n_ctx p)))\<rparr>\<rparr>)
          (generator g0) (encode tk prompt (n_ctx p)) p = Inr (tok, a2, rng1)"
    and g2: "g2 = g0\<lparr>api := a2\<lparr>m_new_token_id := tok\<rparr>, generator := rng1,
                output_token := tok, history_ids := encode tk prompt (n_ctx p)\<rparr>"
    and g3: "g3 = (api_callback cb g2)
          \<lparr>history_ids := encode tk prompt (n_ctx p) @ [tok],
           api := (api (api_callback cb g2))
                  \<lparr>m_infer_request := Some
                     (r\<lparr>q_input_ids := set_shape (q_input_ids r) [BATCH_SIZE, 1],
                        q_position_ids := set_shape (q_position_ids r) [BATCH_SIZE, 1]\<rparr>)\<rparr>\<rparr>"
    and l: "stream_loop R cb p (encode tk prompt (n_ctx p)) g3 = Inr g4"
    and g1: "g1 = g4\<lparr>api := (api g4)
               \<lparr>m_perf_statistic :=
                  finish_statistic (m_perf_statistic (api g4))
                    (int (length (history_ids g4)) - int (length (encode tk prompt (n_ctx p)))),
                m_api_status := loaded\<rparr>\<rparr>"
    by blast
  let ?input = "encode tk prompt (n_ctx p)"
  let ?b0 = "m_stop_generation (api g0)"
  have flag: "m_stop_generation a2 = ?b0"
    using generate_first_token_Inr(5) [OF f] by simp
  obtain c1 t1 b1 where cb: "cb (callback_state g0) tok ?b0 = (c1, t1, b1)"
    by (cases "cb (callback_state g0) tok ?b0")
  have cb': "cb (callback_state g2) (m_new_token_id (api g2)) (m_stop_generation (api g2))
               = (c1, t1, b1)"
    using cb flag by (simp add: g2)
  have s1: "callback_state g3 = c1"
    and s2: "m_new_token_id (api g3) = t1"
    and s3: "m_stop_generation (api g3) = b1"
    using api_callback_result [of cb g2 c1 t1 b1, OF cb'] by (simp_all add: g3)
  from stream_loop_replay [OF l] obtain toks past c t b where
    h: "history_ids g4 = history_ids g3 @ toks"
    and rp: "replay cb c1 t1 b1 toks = (past, c, t, b)"
    and k: "calls g4 = calls g3 @ past @ (if continuing p ?input g4 then [(t, b)] else [])"
    and e: "continuing p ?input g4 \<longrightarrow> b"
    unfolding s1 s2 s3 by blast
  have c3: "calls g3 = calls g0 @ [(tok, ?b0)]"
    using flag by (simp add: g3 g2 api_callback_fields)
  have h3: "history_ids g3 = ?input @ [tok]"
    by (simp add: g3)
  have cont: "continuing p ?input g1 = continuing p ?input g4"
    by (simp add: g1 continuing_def)
  have 1: "history_ids g1 = ?input @ (tok # toks)" using h h3 g1 by simp
  have 2: "replay cb (callback_state g0) (m_new_token_id (api g0)) ?b0 (tok # toks)
             = ((tok, ?b0) # past, c, t, b)"
    using cb rp by simp
  have 3: "map fst ((tok, ?b0) # past) = tok # toks"
    using replay_fst [OF 2] .
  have 4: "calls g1 = calls g0 @ ((tok, ?b0) # past)
             @ (if continuing p ?input g1 then [(t, b)] else [])"
    using k c3 g1 cont by simp
  have 5: "continuing p ?input g1 \<longrightarrow> b"
    using e cont by simp
  have 6: "keeps_id cb \<longrightarrow> t = last (tok # toks)"
    using replay_keeps_id [OF _ _ 2] by blast
  show "\<exists>tk toks past c t b.
        m_tokenizer (api g0) = Some tk
      \<and> history_ids g1 = encode tk prompt (n_ctx p) @ toks \<and> toks \<noteq> []
      \<and> replay cb (callback_state g0) (m_new_token_id (api g0)) (m_stop_generation (api g0)) toks
          = (past, c, t, b)
      \<and> map fst past = toks
      \<and> calls g1 = calls g0 @ past
           @ (if continuing p (encode tk prompt (n_ctx p)) g1 then [(t, b)] else [])
      \<and> (continuing p (encode tk prompt (n_ctx p)) g1 \<longrightarrow> b)
      \<and> (keeps_id cb \<longrightarrow> t = last toks)"
    using tk 1 2 3 4 5 6
    by (intro exI [of _ tk] exI [of _ "tok # toks"] exI [of _ "(tok, ?b0) # past"]
        exI [of _ c] exI [of _ t] exI [of _ b]) simp
qed

lemma example_stopped:
  "\<exists>g1. api_Generate_stream example_random stopping_callback [] plain_params example_generation
           = Inr g1 \<and> continuing plain_params [7] g1"
  by (simp add: stream_loop.simps continuing_def
      api_Generate_stream_def generate_first_token_def generate_next_token_def
      get_out_token_id_def logits_pre_process_def max_element_def start_async_wait_def
      api_callback_def finish_statistic_def to_size_t_def Let_def
      example_engine_def example_tokenizer_def example_stateful_request_def example_api_def
      example_generation_def stopping_callback_def listening_callback_def plain_params_def
      example_params_def example_random_def zero_statistic_def
      set_shape_def fill_n_def iota_def set_first_def get_size_def BATCH_SIZE_def)

lemma example_rewritten:
  "\<exists>g1. api_Generate_stream example_random rewriting_callback [] plain_params example_generation
           = Inr g1 \<and> continuing plain_params [7] g1 \<and> history_ids g1 = [7, 2]"
  by (simp add: stream_loop.simps continuing_def
      api_Generate_stream_def generate_first_token_def generate_next_token_def
      get_out_token_id_def logits_pre_process_def max_element_def start_async_wait_def
      api_callback_def finish_statistic_def to_size_t_def Let_def
      example_engine_def example_tokenizer_def example_stateful_request_def example_api_def
      example_generation_def rewriting_callback_def plain_params_def
      example_params_def example_random_def zero_statistic_def
      set_shape_def fill_n_def iota_def set_first_def get_size_def BATCH_SIZE_def)

theorem stream_callback_calls_witness:
  "(\<exists>g1 toks past c t b.
      api_Generate_stream example_random stopping_callback [] plain_params example_generation
        = Inr g1
    \<and> history_ids g1 = [7] @ toks \<and> toks \<noteq> []
    \<and> replay stopping_callback () 1 False toks = (past, c, t, b)
    \<and> map fst past = toks
    \<and> continuing plain_params [7] g1
    \<and> calls g1 = past @ [(t, b)] \<and> b
    \<and> keeps_id stopping_callback \<and> t = last toks)
   \<and> (\<exists>g1.
      api_Generate_stream example_random rewriting_callback [] plain_params example_generation
        = Inr g1
    \<and> history_ids g1 = [7, 2]
    \<and> continuing plain_params [7] g1
    \<and> \<not> keeps_id rewriting_callback
    \<and> calls g1 = [(2, False), (99, True)])"
proof
  from example_stopped obtain g1 where
    r: "api_Generate_stream example_random stopping_callback [] plain_params example_generation
          = Inr g1"
    and c: "continuing plain_params [7] g1" by blast
  from stream_callback_calls [THEN mp, OF r] obtain tk toks past cs t b where
    tk: "m_tokenizer (api example_generation) = Some tk"
    and f: "history_ids g1 = encode tk [] (n_ctx plain_params) @ toks" "toks \<noteq> []"
    "replay stopping_callback (callback_state example_generation)
       (m_new_token_id (api example_generation)) (m_stop_generation (api example_generation))
       toks = (past, cs, t, b)"
    "map fst past = toks"
    "calls g1 = calls example_generation @ past
       @ (if continuing plain_params (encode tk [] (n_ctx plain_params)) g1 then [(t, b)] else [])"
    "continuing plain_params (encode tk [] (n_ctx plain_params)) g1 \<longrightarrow> b"
    "keeps_id stopping_callback \<longrightarrow> t = last toks"
    by blast
  from tk have e: "encode tk [] (n_ctx plain_params) = [7]"
    by (auto simp: example_generation_def example_api_def example_tokenizer_def)
  have k: "keeps_id stopping_callback"
    by (simp add: keeps_id_def stopping_callback_def)
  have i: "calls example_generation = []" "callback_state example_generation = ()"
    "m_new_token_id (api example_generation) = 1"
    "m_stop_generation (api example_generation) = False"
    by (simp_all add: example_generation_def example_api_def)
  show "\<exists>g1 toks past c t b.
      api_Generate_stream example_random stopping_callback [] plain_params example_generation
        = Inr g1
    \<and> history_ids g1 = [7] @ toks \<and> toks \<noteq> []
    \<and> replay stopping_callback () 1 False toks = (past, c, t, b)
    \<and> map fst past = toks
    \<and> continuing plain_params [7] g1
    \<and> calls g1 = past @ [(t, b)] \<and> b
    \<and> keeps_id stopping_callback \<and> t = last toks"
    using r c f k unfolding e i
    by (intro exI [of _ g1] exI [of _ toks] exI [of _ past] exI [of _ cs] exI [of _ t]
        exI [of _ b]) simp
next
  from example_rewritten obtain g1 where
    r: "api_Generate_stream example_random rewriting_callback [] plain_params example_generation
          = Inr g1"
    and c: "continuing plain_params [7] g1" and h: "history_ids g1 = [7, 2]" by blast
  from stream_callback_calls [THEN mp, OF r] obtain tk toks past cs t b where
    tk: "m_tokenizer (api example_generation) = Some tk"
    and f: "history_ids g1 = encode tk [] (n_ctx plain_params) @ toks"
    "replay rewriting_callback (callback_state example_generation)
       (m_new_token_id (api example_generation)) (m_stop_generation (api example_generation))
       toks = (past, cs, t, b)"
    "calls g1 = calls example_generation @ past
       @ (if continuing plain_params (encode tk [] (n_ctx plain_params)) g1 then [(t, b)] else [])"
    by blast
  from tk have e: "encode tk [] (n_ctx plain_params) = [7]"
    by (auto simp: example_generation_def example_api_def example_tokenizer_def)
  have i: "calls example_generation = []" "callback_state example_generation = ()"
    "m_new_token_id (api example_generation) = 1"
    "m_stop_generation (api example_generation) = False"
    by (simp_all add: example_generation_def example_api_def)
  from f(1) h have toks: "toks = [2]" unfolding e by simp
  from f(2) have p: "past = [(2, False)]" "t = 99" "b"
    unfolding toks i by (simp_all add: rewriting_callback_def)
  have "calls g1 = [(2, False), (99, True)]"
    using f(3) c p unfolding e i by simp
  moreover have "\<not> keeps_id rewriting_callback"
    by (auto simp: keeps_id_def rewriting_callback_def intro: exI [of _ 0])
  ultimately show "\<exists>g1.
      api_Generate_stream example_random rewriting_callback [] plain_params example_generation
        = Inr g1
    \<and> history_ids g1 = [7, 2]
    \<and> continuing plain_params [7] g1
    \<and> \<not> keeps_id rewriting_callback
    \<and> calls g1 = [(2, False), (99, True)]"
    using r c h by blast
qed

text \<open>
  C3 as stated fails when the stop flag is set: with a callback that sets the flag at its
  first call, one token (2) is produced and the callback is called twice with it.
\<close>

theorem stream_token_delivered_twice:
  "map_sum id (\<lambda>g. (calls g, history_ids g))
     (api_Generate_stream example_random stopping_callback [] plain_params example_generation)
   = Inr ([(2, False), (2, True)], [7, 2])"
  by (simp add: stream_loop.simps
      api_Generate_stream_def generate_first_token_def generate_next_token_def
      get_out_token_id_def logits_pre_process_def max_element_def start_async_wait_def
      api_callback_def finish_statistic_def to_size_t_def Let_def
      example_engine_def example_tokenizer_def example_stateful_request_def example_api_def
      example_generation_def stopping_callback_def listening_callback_def plain_params_def
      example_params_def example_random_def zero_statistic_def
      set_shape_def fill_n_def iota_def set_first_def get_size_def BATCH_SIZE_def)

subsection \<open>The bounds of the decode loops\<close>

lemma to_size_t_le: "0 \<le> n \<Longrightarrow> int (to_size_t n) \<le> n"
proof -
  assume "0 \<le> n"
  then have "n mod 2 ^ 64 \<le> n" by (rule zmod_le_nonneg_dividend)
  then show ?thesis by (simp add: to_size_t_def)
qed

lemma generate_loop_exit:
  "\<not> (output_token g \<noteq> eos_token_id (m_tokenizer_config (api g))
       \<and> output_token g \<noteq> im_end_id (m_tokenizer_config (api g))
       \<and> length (output_ids g) < to_size_t (n_predict p)
       \<and> \<not> m_stop_generation (api g)) \<Longrightarrow>
     generate_loop R p g = Inr g"
  by (subst generate_loop.simps) auto

lemma generate_loop_next:
  "output_token g \<noteq> eos_token_id (m_tokenizer_config (api g))
       \<and> output_token g \<noteq> im_end_id (m_tokenizer_config (api g))
       \<and> length (output_ids g) < to_size_t (n_predict p)
       \<and> \<not> m_stop_generation (api g) \<Longrightarrow>
     generate_loop R p g =
       (case generate_next_token R (api g) (generator g) (output_token g) (history_ids g) p of
          Inl e \<Rightarrow> Inl e
        | Inr (tok, a, rng1) \<Rightarrow>
            generate_loop R p
              (g\<lparr>api := a, generator := rng1, output_token := tok,
                 history_ids := history_ids g @ [tok],
                 output_ids := output_ids g @ [tok]\<rparr>))"
  by (subst generate_loop.simps) auto

lemma generate_loop_length:
  "generate_loop R p g = Inr g' \<Longrightarrow>
     length (output_ids g) \<le> length (output_ids g')
     \<and> length (output_ids g') \<le> max (length (output_ids g)) (to_size_t (n_predict p))"
proof (induction R p g rule: generate_loop.induct)
  case (1 R p g)
  let ?c = "output_token g \<noteq> eos_token_id (m_tokenizer_config (api g))
       \<and> output_token g \<noteq> im_end_id (m_tokenizer_config (api g))
       \<and> length (output_ids g) < to_size_t (n_predict p)
       \<and> \<not> m_stop_generation (api g)"
  show ?case
  proof (cases ?c)
    case False
    with "1.prems" have "g' = g" by (simp add: generate_loop_exit)
    then show ?thesis by simp
  next
    case True
    let ?g1 = "\<lambda>tok a rng1. g\<lparr>api := a, generator := rng1, output_token := tok,
                 history_ids := history_ids g @ [tok],
                 output_ids := output_ids g @ [tok]\<rparr>"
    from True "1.prems" obtain tok a rng1 where
      n: "generate_next_token R (api g) (generator g) (output_token g) (history_ids g) p
            = Inr (tok, a, rng1)"
      and r: "generate_loop R p (?g1 tok a rng1) = Inr g'"
      by (auto simp: generate_loop_next split: sum.splits)
    from "1.IH" [OF True n refl refl r] True show ?thesis by auto
  qed
qed

lemma api_Generate_Inr:
  fixes g0 g1 :: "('v, 'r, 'c) generation"
  assumes "api_Generate R prompt p g0 = Inr (response, g1)"
  shows "\<exists>g g2 :: ('v, 'r, 'c) generation.
           generate_loop R p g = Inr g2 \<and> length (output_ids g) = 1
           \<and> output_ids g1 = output_ids g2"
  using assms
  apply (clarsimp simp: api_Generate_def Let_def split: option.splits sum.splits prod.splits)
  apply (rule exI, rule exI, rule conjI, assumption)
  apply simp
  done

text \<open>
  C7 (as amended). Both loops are total functions: every run ends, with a result or with
  a fault. The speculative loop adds one to \<open>iter\<close> per iteration and ends with \<open>iter\<close> at
  most \<open>max_iter\<close> (if it started below), on the end-of-sequence token or at \<open>max_iter\<close>;
  it runs no iteration when the pending token is the end-of-sequence token. The loop of
  \<open>api_Generate\<close> adds one token to \<open>output_ids\<close> per iteration and ends with at most
  \<open>n_predict\<close> converted to \<open>size_t\<close> tokens (if it started below), which is at most
  \<open>n_predict\<close> when that is not negative; it runs no iteration after an end-of-sequence
  token. So for \<open>n_predict \<ge> 0\<close> a call of \<open>api_Generate\<close> produces the token of the
  prefill and runs at most \<open>n_predict - 1\<close> iterations of the loop (none for 0).
\<close>

theorem decode_loops_bounded:
  "(generation_loop v m st = Inr st' \<longrightarrow>
      iter st \<le> iter st' \<and> iter st' \<le> max (iter st) m
      \<and> (out_token st' = SPECIAL_EOS_TOKEN \<or> m \<le> iter st'))
   \<and> (out_token st = SPECIAL_EOS_TOKEN \<longrightarrow> generation_loop v m st = Inr st)
   \<and> (generate_loop R p (g :: ('v, 'r, 'c) generation) = Inr g' \<longrightarrow>
        length (output_ids g) \<le> length (output_ids g')
        \<and> length (output_ids g') \<le> max (length (output_ids g)) (to_size_t (n_predict p))
        \<and> (0 \<le> n_predict p \<longrightarrow>
             int (length (output_ids g')) \<le> max (int (length (output_ids g))) (n_predict p)))
   \<and> (output_token g = eos_token_id (m_tokenizer_config (api g))
        \<or> output_token g = im_end_id (m_tokenizer_config (api g)) \<longrightarrow>
        generate_loop R p g = Inr g)
   \<and> (api_Generate R prompt p (g0 :: ('v, 'r, 'c) generation) = Inr (response, g1)
        \<and> 0 \<le> n_predict p \<longrightarrow>
        1 \<le> length (output_ids g1)
        \<and> int (length (output_ids g1)) - 1 \<le> max 0 (n_predict p - 1))"
proof (intro conjI impI)
  assume "generation_loop v m st = Inr st'"
  from generation_loop_iter [OF this]
  show "iter st \<le> iter st'" "iter st' \<le> max (iter st) m"
    "out_token st' = SPECIAL_EOS_TOKEN \<or> m \<le> iter st'"
    by auto
next
  assume "out_token st = SPECIAL_EOS_TOKEN"
  then show "generation_loop v m st = Inr st" by (simp add: generation_loop_stop)
next
  assume l: "generate_loop R p g = Inr g'"
  from generate_loop_length [OF l]
  show "length (output_ids g) \<le> length (output_ids g')"
    "length (output_ids g') \<le> max (length (output_ids g)) (to_size_t (n_predict p))"
    by auto
  assume "0 \<le> n_predict p"
  from to_size_t_le [OF this] generate_loop_length [OF l]
  show "int (length (output_ids g')) \<le> max (int (length (output_ids g))) (n_predict p)"
    by linarith
next
  assume "output_token g = eos_token_id (m_tokenizer_config (api g))
        \<or> output_token g = im_end_id (m_tokenizer_config (api g))"
  then show "generate_loop R p g = Inr g" by (intro generate_loop_exit) auto
next
  assume a: "api_Generate R prompt p g0 = Inr (response, g1) \<and> 0 \<le> n_predict p"
  from api_Generate_Inr [of R prompt p g0 response g1] a
  obtain g g2 :: "('v, 'r, 'c) generation" where
    l: "generate_loop R p g = Inr g2" and o: "length (output_ids g) = 1"
    and e: "output_ids g1 = output_ids g2"
    by blast
  from generate_loop_length [OF l] o e show "1 \<le> length (output_ids g1)" by simp
  have "length (output_ids g2) \<le> max 1 (to_size_t (n_predict p))"
    using generate_loop_length [OF l] o by simp
  then have len: "int (length (output_ids g2)) \<le> max 1 (int (to_size_t (n_predict p)))"
    by linarith
  from a have "0 \<le> n_predict p" by simp
  then have "int (to_size_t (n_predict p)) \<le> n_predict p" by (rule to_size_t_le)
  with len show "int (length (output_ids g1)) - 1 \<le> max 0 (n_predict p - 1)"
    unfolding e by linarith
qed


lemma example_generate:
  "\<exists>response g1. api_Generate example_random [] plain_params example_generation
      = Inr (response, g1)"
  by (simp add: generate_loop.simps
      api_Generate_def generate_first_token_def generate_next_token_def
      get_out_token_id_def logits_pre_process_def max_element_def start_async_wait_def
      finish_statistic_def to_size_t_def Let_def
      example_engine_def example_tokenizer_def example_stateful_request_def example_api_def
      example_generation_def plain_params_def example_started_def
      example_params_def example_random_def zero_statistic_def
      set_shape_def fill_n_def iota_def set_first_def get_size_def BATCH_SIZE_def)

lemma example_generate_loop:
  "\<exists>g'. generate_loop example_random plain_params example_started = Inr g'"
  by (simp add: generate_loop.simps
      api_Generate_def generate_first_token_def generate_next_token_def
      get_out_token_id_def logits_pre_process_def max_element_def start_async_wait_def
      finish_statistic_def to_size_t_def Let_def
      example_engine_def example_tokenizer_def example_stateful_request_def example_api_def
      example_generation_def plain_params_def example_started_def
      example_params_def example_random_def zero_statistic_def
      set_shape_def fill_n_def iota_def set_first_def get_size_def BATCH_SIZE_def)


theorem decode_loops_bounded_witness:
  "(\<exists>s1. generation_loop 3 1 example_state = Inr s1
        \<and> iter example_state \<le> iter s1 \<and> iter s1 \<le> max (iter example_state) 1
        \<and> (out_token s1 = SPECIAL_EOS_TOKEN \<or> 1 \<le> iter s1))
   \<and> out_token (example_state\<lparr>out_token := 2\<rparr>) = SPECIAL_EOS_TOKEN
   \<and> generation_loop 3 1 (example_state\<lparr>out_token := 2\<rparr>) = Inr (example_state\<lparr>out_token := 2\<rparr>)
   \<and> (\<exists>g'. generate_loop example_random plain_params example_started = Inr g'
        \<and> length (output_ids example_started) \<le> length (output_ids g')
        \<and> int (length (output_ids g')) \<le> 512)
   \<and> output_token example_generation = eos_token_id (m_tokenizer_config (api example_generation))
   \<and> generate_loop example_random plain_params example_generation = Inr example_generation
   \<and> (\<exists>response g1. api_Generate example_random [] plain_params example_generation
          = Inr (response, g1)
        \<and> 1 \<le> length (output_ids g1) \<and> int (length (output_ids g1)) - 1 \<le> 511)"
proof -
  note b = decode_loops_bounded [where v = 3 and m = 1 and R = example_random
      and p = plain_params and prompt = "[]"]
  from example_body obtain s1 where l: "loop_body 3 example_state = Inr s1" ..
  have g: "generation_loop 3 1 example_state = Inr s1"
    using l by (rule generation_loop_once) (simp_all add: example_state_def SPECIAL_EOS_TOKEN_def)
  from b [THEN conjunct1, THEN mp, OF g]
  have 1: "\<exists>s1. generation_loop 3 1 example_state = Inr s1
        \<and> iter example_state \<le> iter s1 \<and> iter s1 \<le> max (iter example_state) 1
        \<and> (out_token s1 = SPECIAL_EOS_TOKEN \<or> 1 \<le> iter s1)"
    using g by blast
  have e: "out_token (example_state\<lparr>out_token := 2\<rparr>) = SPECIAL_EOS_TOKEN"
    by (simp add: SPECIAL_EOS_TOKEN_def)
  from b [THEN conjunct2, THEN conjunct1, THEN mp, OF e]
  have 2: "generation_loop 3 1 (example_state\<lparr>out_token := 2\<rparr>)
      = Inr (example_state\<lparr>out_token := 2\<rparr>)" .
  from example_generate_loop obtain g' where
    gl: "generate_loop example_random plain_params example_started = Inr g'" ..
  from b [THEN conjunct2, THEN conjunct2, THEN conjunct1, THEN mp, OF gl]
  have 3: "\<exists>g'. generate_loop example_random plain_params example_started = Inr g'
        \<and> length (output_ids example_started) \<le> length (output_ids g')
        \<and> int (length (output_ids g')) \<le> 512"
    using gl by (auto simp: plain_params_def example_params_def example_started_def)
  have o: "output_token example_generation
      = eos_token_id (m_tokenizer_config (api example_generation))"
    by (simp add: example_generation_def example_api_def)
  from b [THEN conjunct2, THEN conjunct2, THEN conjunct2, THEN conjunct1, THEN mp,
      OF disjI1, OF o]
  have 4: "generate_loop example_random plain_params example_generation = Inr example_generation" .
  from example_generate obtain response g1 where
    ag: "api_Generate example_random [] plain_params example_generation = Inr (response, g1)"
    by blast
  have n: "0 \<le> n_predict plain_params"
    by (simp add: plain_params_def example_params_def)
  from b [THEN conjunct2, THEN conjunct2, THEN conjunct2, THEN conjunct2, THEN mp,
      OF conjI, OF ag n]
  have 5: "\<exists>response g1. api_Generate example_random [] plain_params example_generation
          = Inr (response, g1)
        \<and> 1 \<le> length (output_ids g1) \<and> int (length (output_ids g1)) - 1 \<le> 511"
    using ag by (auto simp: plain_params_def example_params_def)
  from 1 e 2 3 o 4 5 show ?thesis by blast
qed

text \<open>
  C7 as stated fails at the edges of \<open>n_predict\<close>: with \<open>n_predict = -1\<close> the comparison
  with \<open>output_ids.size()\<close> is unsigned and the loop runs (here twice, until the
  end-of-sequence token); with \<open>n_predict = 0\<close> one token is produced.
\<close>

theorem decode_loop_unbounded:
  "map_sum id (\<lambda>(response, g). output_ids g)
     (api_Generate example_random [] (plain_params\<lparr>n_predict := - 1\<rparr>) example_generation)
     = Inr [2, 2, 0]
   \<and> map_sum id (\<lambda>(response, g). output_ids g)
     (api_Generate example_random [] (plain_params\<lparr>n_predict := 0\<rparr>) example_generation)
     = Inr [2]"
  by (simp add: generate_loop.simps
      api_Generate_def generate_first_token_def generate_next_token_def
      get_out_token_id_def logits_pre_process_def max_element_def start_async_wait_def
      finish_statistic_def to_size_t_def Let_def
      example_engine_def example_tokenizer_def example_stateful_request_def example_api_def
      example_generation_def plain_params_def example_started_def
      example_params_def example_random_def zero_statistic_def
      set_shape_def fill_n_def iota_def set_first_def get_size_def BATCH_SIZE_def)

subsection \<open>Reset and the statistics\<close>

lemma finish_statistic_load [simp]:
  "same_load_statistics (finish_statistic s n) t = same_load_statistics s t"
  by (simp add: finish_statistic_def same_load_statistics_def Let_def)

lemma generated_token_num_finish [simp]:
  "generated_token_num (finish_statistic s n) = n"
  by (simp add: finish_statistic_def Let_def)

lemma generate_first_token_statistic:
  assumes "generate_first_token R a rng input_ids p = Inr (tok, a', rng')"
  shows "m_perf_statistic a'
           = (m_perf_statistic a)
               \<lparr>llm_first_infer_duration := llm_first_infer_duration (m_perf_statistic a'),
                llm_prompt_evaluation_speed :=
                  real_of_int (input_token_num (m_perf_statistic a))
                    / llm_first_infer_duration (m_perf_statistic a') * 1000\<rparr>"
    and "clock_nonneg a' = clock_nonneg a"
  using assms
  by (auto simp: generate_first_token_def Let_def clock_nonneg_def start_async_wait_def
      split: option.splits prod.splits sum.splits)

lemma start_async_wait_nonneg:
  assumes "start_async_wait r = (r', d)"
    and "\<forall>ii am pi bi vs. 0 \<le> snd (snd (run (q_engine r) ii am pi bi vs))"
  shows "0 \<le> d"
proof -
  have "d = snd (snd (run (q_engine r) (q_input_ids r) (q_attention_mask r) (q_position_ids r)
             (q_beam_idx r) (q_state r)))"
    using assms(1) by (auto simp: start_async_wait_def split: prod.splits)
  with assms(2) show ?thesis by simp
qed

lemma generate_next_token_statistic:
  assumes "generate_next_token R a rng t h p = Inr (tok, a', rng')"
  shows "m_perf_statistic a'
           = (m_perf_statistic a)
               \<lparr>llm_generate_next_token_duration :=
                  llm_generate_next_token_duration (m_perf_statistic a')\<rparr>"
    and "clock_nonneg a' = clock_nonneg a"
  using assms
  by (auto simp: generate_next_token_def Let_def clock_nonneg_def start_async_wait_def
      split: option.splits prod.splits sum.splits if_splits)

lemma generate_next_token_duration:
  assumes "generate_next_token R a rng t h p = Inr (tok, a', rng')"
    and "clock_nonneg a"
  shows "llm_generate_next_token_duration (m_perf_statistic a)
            \<le> llm_generate_next_token_duration (m_perf_statistic a')"
  using assms
  by (auto simp: generate_next_token_def Let_def clock_nonneg_def
      split: option.splits prod.splits sum.splits if_splits
      dest!: start_async_wait_nonneg)


lemma clock_nonneg_cong:
  "map_option q_engine (m_infer_request a') = map_option q_engine (m_infer_request a)
     \<Longrightarrow> clock_nonneg a' = clock_nonneg a"
  by (auto simp: clock_nonneg_def split: option.splits)

lemma stream_loop_counters:
  "stream_loop R cb p input_ids g = Inr g' \<Longrightarrow>
     m_perf_statistic (api g')
       = (m_perf_statistic (api g))
           \<lparr>llm_generate_next_token_duration :=
              llm_generate_next_token_duration (m_perf_statistic (api g'))\<rparr>
     \<and> (clock_nonneg (api g) \<longrightarrow>
          llm_generate_next_token_duration (m_perf_statistic (api g))
            \<le> llm_generate_next_token_duration (m_perf_statistic (api g')))"
proof (induction R cb p input_ids g rule: stream_loop.induct)
  case (1 R cb p input_ids g)
  consider (exit) "\<not> continuing p input_ids g"
    | (stop) "continuing p input_ids g" and "m_stop_generation (api g)"
    | (more) "continuing p input_ids g" and "\<not> m_stop_generation (api g)"
    by blast
  then show ?case
  proof cases
    case exit
    with "1.prems" show ?thesis by (simp add: stream_loop_exit)
  next
    case stop
    with "1.prems" show ?thesis by (auto simp: stream_loop_stop api_callback_fields)
  next
    case more
    let ?g1 = "\<lambda>tok a rng1. (api_callback cb
                  (g\<lparr>api := a\<lparr>m_new_token_id := tok\<rparr>, generator := rng1, output_token := tok\<rparr>))
               \<lparr>history_ids := history_ids g @ [tok]\<rparr>"
    from more "1.prems" obtain tok a rng1 where
      n: "generate_next_token R (api g) (generator g) (output_token g) (history_ids g) p
            = Inr (tok, a, rng1)"
      and r: "stream_loop R cb p input_ids (?g1 tok a rng1) = Inr g'"
      by (auto simp: stream_loop_next split: sum.splits)
    have c: "output_token g \<noteq> eos_token_id (m_tokenizer_config (api g))
         \<and> output_token g \<noteq> im_end_id (m_tokenizer_config (api g))
         \<and> to_size_t (int (length (history_ids g)) - int (length input_ids))
             < to_size_t (n_predict p)"
      using more(1) by (simp add: continuing_def)
    let ?s = "m_perf_statistic (api g)" and ?s1 = "m_perf_statistic a"
      and ?s' = "m_perf_statistic (api g')"
    have st: "m_perf_statistic (api (?g1 tok a rng1)) = ?s1"
      by (simp add: api_callback_fields)
    have ck: "clock_nonneg (api (?g1 tok a rng1)) = clock_nonneg (api g)"
      using generate_next_token_statistic(2) [OF n]
      by (simp add: clock_nonneg_def api_callback_fields)
    from "1.IH" [OF c more(2) n refl refl r]
    have i1: "?s' = ?s1\<lparr>llm_generate_next_token_duration := llm_generate_next_token_duration ?s'\<rparr>"
      and i2: "clock_nonneg (api g) \<longrightarrow>
                 llm_generate_next_token_duration ?s1 \<le> llm_generate_next_token_duration ?s'"
      unfolding st ck by blast+
    have "?s' = ?s\<lparr>llm_generate_next_token_duration := llm_generate_next_token_duration ?s'\<rparr>"
      by (subst i1, subst generate_next_token_statistic(1) [OF n]) simp
    moreover have "clock_nonneg (api g) \<longrightarrow>
        llm_generate_next_token_duration ?s \<le> llm_generate_next_token_duration ?s'"
      using i2 generate_next_token_duration [OF n] by fastforce
    ultimately show ?thesis by blast
  qed
qed



lemma example_stream_run:
  "\<exists>g1. api_Generate_stream example_random listening_callback [] plain_params example_generation
           = Inr g1
        \<and> history_ids g1 = [7, 2, 2, 0]
        \<and> llm_first_infer_duration (m_perf_statistic (api g1)) = 1
        \<and> llm_generate_next_token_duration (m_perf_statistic (api g1)) = 2"
  by (simp add: stream_loop.simps
      api_Generate_stream_def generate_first_token_def generate_next_token_def
      get_out_token_id_def logits_pre_process_def max_element_def start_async_wait_def
      api_callback_def finish_statistic_def to_size_t_def Let_def
      example_engine_def example_tokenizer_def example_stateful_request_def example_api_def
      example_generation_def stopping_callback_def listening_callback_def plain_params_def
      example_params_def example_random_def zero_statistic_def
      set_shape_def fill_n_def iota_def set_first_def get_size_def BATCH_SIZE_def)


end
